theory Spec2Isabelle
  imports Main "HOL-Library.AList"
begin

section \<open>The credential import command (import:credentials)\<close>

text \<open>
  A shallow embedding of \<open>ImportCredentialsCommand\<close>: \<open>run\<close>, \<open>storeCredential\<close>,
  \<open>getOwner\<close>, \<open>getAssignee\<close>, \<open>reportSuccess\<close> and \<open>catch\<close>. The command reads
  JSON from the file system, resolves the user that will own the credentials, and
  writes the credentials and their ownership links through an entity manager inside
  one database transaction.

  Promises are rendered as results: a rejected promise (a thrown exception) is
  \<open>Inl e\<close>, a resolved one is \<open>Inr v\<close>. What the command reads but never changes
  (file system, parser, configuration, constants) is the record \<open>env\<close>; what it
  changes (the database) is the record \<open>db\<close>, passed in and returned. The logger's
  output is returned as a list.
\<close>

subsection \<open>JavaScript values\<close>

text \<open>
  The values \<open>jsonParse\<close> can return. A property that is not there reads as
  \<open>undefined\<close>, rendered as \<open>None\<close>. Numbers are kept as integers: the command never
  computes with them.
\<close>

datatype json =
    JNull
  | JBool bool
  | JNum int
  | JStr string
  | JArr "json list"
  | JObj "(string \<times> json) list"

datatype error =
    TypeError string
  | SyntaxError string
  | FsError string
  | QueryFailedError string
  | Error string

datatype log_entry = Info string | ErrorLog string

text \<open>\<open>value.data\<close>: throws on \<open>null\<close>, reads the own property of an object, and is
  \<open>undefined\<close> on every other value (numbers, booleans, strings and arrays have no
  \<open>data\<close> property).\<close>

fun js_data :: "json \<Rightarrow> error + json option" where
  "js_data JNull = Inl (TypeError ''Cannot read properties of null (reading 'data')'')"
| "js_data (JObj kvs) = Inr (map_of kvs ''data'')"
| "js_data _ = Inr None"

text \<open>\<open>typeof v === 'object'\<close>: true of objects, arrays and \<open>null\<close>.\<close>

fun typeof_object :: "json option \<Rightarrow> bool" where
  "typeof_object (Some JNull) = True"
| "typeof_object (Some (JArr _)) = True"
| "typeof_object (Some (JObj _)) = True"
| "typeof_object _ = False"

text \<open>\<open>value.length\<close> as read at line 150: throws on \<open>null\<close>; the length of an array or
  of a string. On any other value JavaScript yields \<open>undefined\<close> (or whatever an
  object's own \<open>length\<close> property holds); the model renders that as 0, because the
  command discards it: the array check that follows throws.\<close>

fun js_length :: "json \<Rightarrow> error + nat" where
  "js_length JNull = Inl (TypeError ''Cannot read properties of null (reading 'length')'')"
| "js_length (JArr xs) = Inr (length xs)"
| "js_length (JStr s) = Inr (length s)"
| "js_length _ = Inr 0"

fun isArray :: "json \<Rightarrow> bool" where
  "isArray (JArr _) = True"
| "isArray _ = False"

text \<open>A flag of type \<open>string | undefined\<close> used as a condition: \<open>undefined\<close> and the
  empty string are falsy.\<close>

fun truthy :: "string option \<Rightarrow> bool" where
  "truthy None = False"
| "truthy (Some s) = (s \<noteq> [])"

text \<open>Decimal rendering of a count inside a template literal; \<open>digit\<close> is only applied
  to numbers below ten.\<close>

definition digit :: "nat \<Rightarrow> char" where
  "digit n = ''0123456789'' ! n"

function string_of_nat :: "nat \<Rightarrow> string" where
  "string_of_nat n =
     (if n < 10 then [digit n] else string_of_nat (n div 10) @ [digit (n mod 10)])"
  by pat_completeness auto
termination
  by (relation "measure id") auto

declare string_of_nat.simps [simp del]

subsection \<open>Environment and database\<close>

datatype fs_entry = File string | Directory

text \<open>
  The collaborators of the command, none of which it modifies:
  \<^item> \<open>fs\<close>: the file system, a map from paths to entries;
  \<^item> \<open>glob\<close>: what \<open>glob('*.json', {cwd, absolute: true})\<close> returns for a directory path;
  \<^item> \<open>jsonParse\<close>: the parser, \<open>None\<close> where it throws;
  \<^item> \<open>encrypt\<close>: the cipher, taking the key and the plain payload;
  \<^item> \<open>rowOk\<close>: the column constraints of the credentials table, which the source
    leaves to the database;
  \<^item> \<open>integer_of\<close>: how the database reads a string written to the integer \<open>id\<close>
    column, \<open>None\<close> where it refuses the string;
  \<^item> \<open>setvalOk\<close>: the bounds of the sequence \<open>credentials_entity_id_seq\<close>, outside of
    which \<open>setval\<close> fails;
  \<^item> \<open>parseMessage\<close>, \<open>fsMessage\<close>, \<open>queryMessage\<close>, \<open>setvalMessage\<close>: the messages of
    the errors the parser, the file system and the database raise, for the content, the
    path, the record or the sequence value they refuse;
  \<^item> \<open>encryptionKey\<close>, \<open>database_type\<close>, \<open>platform\<close>: \<open>userSettings.encryptionKey\<close>,
    \<open>config.getEnv('database.type')\<close> and \<open>process.platform\<close>;
  \<^item> \<open>GLOBAL_OWNER\<close>, \<open>CREDENTIAL_OWNER\<close>, \<open>UM_FIX_INSTRUCTION\<close>: constants imported
    from modules that are not part of the sources at hand.
\<close>

record env =
  fs :: "string \<Rightarrow> fs_entry option"
  glob :: "string \<Rightarrow> string list"
  jsonParse :: "string \<Rightarrow> json option"
  encrypt :: "string \<Rightarrow> json \<Rightarrow> string"
  rowOk :: "json \<Rightarrow> bool"
  integer_of :: "string \<Rightarrow> int option"
  setvalOk :: "int \<Rightarrow> bool"
  parseMessage :: "string \<Rightarrow> string"
  fsMessage :: "string \<Rightarrow> string"
  queryMessage :: "json \<Rightarrow> string"
  setvalMessage :: "int \<Rightarrow> string"
  encryptionKey :: string
  database_type :: string
  platform :: string
  GLOBAL_OWNER :: string
  CREDENTIAL_OWNER :: string
  UM_FIX_INSTRUCTION :: string

record flags =
  flag_input :: "string option"
  flag_separate :: bool
  flag_userId :: "string option"

record User =
  user_id :: string
  user_role :: string

text \<open>An ownership link. Its \<open>credentialsId\<close> refers to the integer \<open>id\<close> column of the
  credentials table.\<close>

record SharedCredentials =
  credentialsId :: int
  userId :: string
  role :: string

text \<open>
  The stored state: the user table; the credentials table, each row the integer in its
  \<open>id\<close> column together with the record written to it; the ownership-link table; and
  the last value of the sequence \<open>credentials_entity_id_seq\<close> (Postgres only; \<open>None\<close>
  while the sequence has not been used).
\<close>

record db =
  users :: "User list"
  credentials_entity :: "(int \<times> json) list"
  shared_credentials :: "SharedCredentials list"
  credentials_entity_id_seq :: "int option"

definition existsSync :: "env \<Rightarrow> string \<Rightarrow> bool" where
  "existsSync env p = (fs env p \<noteq> None)"

definition isDirectory :: "env \<Rightarrow> string \<Rightarrow> bool" where
  "isDirectory env p = (fs env p = Some Directory)"

definition readFileSync :: "env \<Rightarrow> string \<Rightarrow> error + string" where
  "readFileSync env p =
     (case fs env p of Some (File s) \<Rightarrow> Inr s | _ \<Rightarrow> Inl (FsError (fsMessage env p)))"

subsection \<open>The entity manager\<close>

text \<open>
  What the \<open>id\<close> column gets from a record. The column is an integer (its \<open>MAX\<close> is
  passed to \<open>setval\<close>): a JSON number is stored as it is, a string as the integer the
  database reads it as, so that \<open>"7"\<close> and \<open>"07"\<close> are one identifier. A record without
  \<open>id\<close> gets the column's default; any other value is refused. The command stores one
  record at a time. The mapper would also take an array of records and store it row by
  row; that use lies outside the records the statements below speak of, and a value
  that is not an object is refused here.
\<close>

datatype id_value = Absent | Given int | Refused

fun credentialId :: "env \<Rightarrow> json \<Rightarrow> id_value" where
  "credentialId env (JObj kvs) =
     (case map_of kvs ''id'' of
        None \<Rightarrow> Absent
      | Some (JNum n) \<Rightarrow> Given n
      | Some (JStr s) \<Rightarrow> (case integer_of env s of Some n \<Rightarrow> Given n | None \<Rightarrow> Refused)
      | Some _ \<Rightarrow> Refused)"
| "credentialId env _ = Refused"

definition credentialIds :: "(int \<times> json) list \<Rightarrow> int list" where
  "credentialIds rows = map fst rows"

text \<open>\<open>SELECT MAX(id) FROM credentials_entity\<close>: \<open>NULL\<close> on an empty table.\<close>

fun max_id :: "int list \<Rightarrow> int option" where
  "max_id [] = None"
| "max_id (i # is) = Some (fold max is i)"

text \<open>The default of the \<open>id\<close> column: on Postgres the next value of the sequence, which
  is thereby advanced; elsewhere an identifier above those in the table.\<close>

definition defaultId :: "env \<Rightarrow> db \<Rightarrow> int \<times> int option" where
  "defaultId env d =
     (if database_type env = ''postgresdb''
      then (case credentials_entity_id_seq d of
              None \<Rightarrow> (1, Some 1)
            | Some v \<Rightarrow> (v + 1, Some (v + 1)))
      else (case max_id (credentialIds (credentials_entity d)) of
              None \<Rightarrow> (1, credentials_entity_id_seq d)
            | Some m \<Rightarrow> (m + 1, credentials_entity_id_seq d)))"

text \<open>Insert if absent, replace if present, keyed on the integer identifier. A table is
  kept as the list of its rows; a replaced row keeps its place.\<close>

definition upsertRow :: "int \<Rightarrow> json \<Rightarrow> (int \<times> json) list \<Rightarrow> (int \<times> json) list" where
  "upsertRow n credential rows =
     (if n \<in> set (map fst rows)
      then map (\<lambda>r. if fst r = n then (n, credential) else r) rows
      else rows @ [(n, credential)])"

text \<open>
  \<open>upsert(CredentialsEntity, credential, ['id'])\<close> of the object-relational mapper. It
  fails when the record breaks a column constraint or its \<open>id\<close> is refused. Its result
  lists the identifier the record carried: for a record without \<open>id\<close> the row is
  written under the column's default and \<open>result.identifiers[0]\<close> is \<open>undefined\<close>
  (\<open>init\<close> has disabled the mapper's handling of generated identifiers).
\<close>

definition upsertCredentialsEntity ::
  "env \<Rightarrow> json \<Rightarrow> db \<Rightarrow> error + (int option \<times> db)" where
  "upsertCredentialsEntity env credential d =
     (if \<not> rowOk env credential then Inl (QueryFailedError (queryMessage env credential))
      else
        (case credentialId env credential of
           Refused \<Rightarrow> Inl (QueryFailedError (queryMessage env credential))
         | Given n \<Rightarrow>
             Inr (Some n,
                  d\<lparr>credentials_entity := upsertRow n credential (credentials_entity d)\<rparr>)
         | Absent \<Rightarrow>
             (case defaultId env d of
                (n, s) \<Rightarrow>
                  Inr (None,
                       d\<lparr>credentials_entity := upsertRow n credential (credentials_entity d),
                         credentials_entity_id_seq := s\<rparr>))))"

text \<open>\<open>upsert(SharedCredentials, link, ['credentialsId', 'userId'])\<close>: insert or
  replace, keyed on the pair.\<close>

definition linkKey :: "SharedCredentials \<Rightarrow> int \<times> string" where
  "linkKey l = (credentialsId l, userId l)"

definition upsertSharedCredentials ::
  "SharedCredentials \<Rightarrow> SharedCredentials list \<Rightarrow> SharedCredentials list" where
  "upsertSharedCredentials link rows =
     (if linkKey link \<in> set (map linkKey rows)
      then map (\<lambda>r. if linkKey r = linkKey link then link else r) rows
      else rows @ [link])"

text \<open>
  \<open>Db.getConnection().transaction(callback)\<close>: the callback runs on the connection's
  state; when it resolves its writes are committed, when it rejects the tables are
  restored. A sequence is not transactional on Postgres: what \<open>nextval\<close> and
  \<open>setval\<close> did to it before the failure stays.
\<close>

definition transaction ::
  "db \<Rightarrow> (db \<Rightarrow> (error + unit) \<times> db) \<Rightarrow> (error + unit) \<times> db" where
  "transaction d callback =
     (case callback d of
        (Inr u, d') \<Rightarrow> (Inr u, d')
      | (Inl e, d') \<Rightarrow>
          (Inl e, d\<lparr>credentials_entity_id_seq := credentials_entity_id_seq d'\<rparr>))"

subsection \<open>Encrypting a plain payload\<close>

text \<open>
  Modelled from the spec: \<open>Credentials.prototype.setData\<close> of the core package, which
  is not among the sources. The spec: the plain payload is encrypted in place using the
  configured encryption key, replacing the field with the encrypted string
  representation. It is only ever called on an object (a value with a \<open>data\<close>
  property of type object).
\<close>

fun setData :: "env \<Rightarrow> json \<Rightarrow> json \<Rightarrow> string \<Rightarrow> json" where
  "setData env (JObj kvs) dat key = JObj (AList.update ''data'' (JStr (encrypt env key dat)) kvs)"
| "setData env credential dat key = credential"

subsection \<open>The command\<close>

text \<open>
  Lines 185-202. The entity manager is the one of the running transaction
  (\<open>this.transactionManager\<close>), so the writes go to the transaction's state \<open>d\<close>.
  Line 190 reads \<open>result.identifiers[0].id\<close>, which throws when the mapper listed no
  identifier. On Postgres line 198 sets the sequence to the greatest identifier of the
  table, and fails when that is out of the sequence's bounds.
\<close>

definition storeCredential :: "env \<Rightarrow> json \<Rightarrow> User \<Rightarrow> db \<Rightarrow> (error + unit) \<times> db" where
  "storeCredential env credential user d =
     (case upsertCredentialsEntity env credential d of
        Inl e \<Rightarrow> (Inl e, d)
      | Inr (identifier, d1) \<Rightarrow>
          (case identifier of
             None \<Rightarrow>
               (Inl (TypeError ''Cannot read properties of undefined (reading 'id')''), d1)
           | Some result_id \<Rightarrow>
               let d2 = d1\<lparr>shared_credentials :=
                          upsertSharedCredentials
                            \<lparr>credentialsId = result_id, userId = user_id user,
                             role = CREDENTIAL_OWNER env\<rparr>
                            (shared_credentials d1)\<rparr>
               in if database_type env = ''postgresdb''
                  then (case max_id (credentialIds (credentials_entity d2)) of
                          None \<Rightarrow> (Inr (), d2)
                        | Some m \<Rightarrow>
                            if setvalOk env m
                            then (Inr (), d2\<lparr>credentials_entity_id_seq := Some m\<rparr>)
                            else (Inl (QueryFailedError (setvalMessage env m)), d2))
                  else (Inr (), d2)))"

text \<open>Lines 204-212.\<close>

definition getOwner :: "env \<Rightarrow> db \<Rightarrow> error + User" where
  "getOwner env d =
     (case find (\<lambda>u. user_role u = GLOBAL_OWNER env) (users d) of
        None \<Rightarrow> Inl (Error (''Failed to find owner. '' @ UM_FIX_INSTRUCTION env))
      | Some owner \<Rightarrow> Inr owner)"

text \<open>Lines 214-222.\<close>

definition getAssignee :: "db \<Rightarrow> string \<Rightarrow> error + User" where
  "getAssignee d uid =
     (case find (\<lambda>u. user_id u = uid) (users d) of
        None \<Rightarrow> Inl (Error (''Failed to find user with ID '' @ uid))
      | Some user \<Rightarrow> Inr user)"

text \<open>Lines 179-183.\<close>

definition reportSuccess :: "nat \<Rightarrow> log_entry" where
  "reportSuccess total' =
     Info (''Successfully imported '' @ string_of_nat total' @ '' '' @
           (if total' = 1 then ''credential.'' else ''credentials.''))"

text \<open>Lines 128-139: the loop over the files of the directory. Each file is read and
  parsed inside the loop, a plain payload is encrypted, and the record is stored.\<close>

fun importFiles :: "env \<Rightarrow> User \<Rightarrow> string \<Rightarrow> string list \<Rightarrow> db \<Rightarrow> (error + unit) \<times> db" where
  "importFiles env user key [] d = (Inr (), d)"
| "importFiles env user key (file # files) d =
     (case readFileSync env file of
        Inl e \<Rightarrow> (Inl e, d)
      | Inr text \<Rightarrow>
          (case jsonParse env text of
             None \<Rightarrow> (Inl (SyntaxError (parseMessage env text)), d)
           | Some credential \<Rightarrow>
               (case js_data credential of
                  Inl e \<Rightarrow> (Inl e, d)
                | Inr dat \<Rightarrow>
                    (case storeCredential env
                            (case dat of
                               Some v \<Rightarrow>
                                 if typeof_object dat then setData env credential v key
                                 else credential
                             | None \<Rightarrow> credential)
                            user d of
                       (Inl e, d') \<Rightarrow> (Inl e, d')
                     | (Inr u, d') \<Rightarrow> importFiles env user key files d'))))"

text \<open>Lines 160-166: the loop over the records of the array.\<close>

fun importCredentials :: "env \<Rightarrow> User \<Rightarrow> string \<Rightarrow> json list \<Rightarrow> db \<Rightarrow> (error + unit) \<times> db" where
  "importCredentials env user key [] d = (Inr (), d)"
| "importCredentials env user key (credential # credentials) d =
     (case js_data credential of
        Inl e \<Rightarrow> (Inl e, d)
      | Inr dat \<Rightarrow>
          (case storeCredential env
                  (case dat of
                     Some v \<Rightarrow>
                       if typeof_object dat then setData env credential v key
                       else credential
                   | None \<Rightarrow> credential)
                  user d of
             (Inl e, d') \<Rightarrow> (Inl e, d')
           | (Inr u, d') \<Rightarrow> importCredentials env user key credentials d'))"

text \<open>Line 116: \<open>inputPath.replace(/\\/g, '/')\<close>.\<close>

definition replaceBackslashes :: "string \<Rightarrow> string" where
  "replaceBackslashes p = map (\<lambda>c. if c = CHR 0x5C then CHR ''/'' else c) p"

text \<open>Lines 112-144: directory mode, after the user has been resolved.\<close>

definition runSeparate :: "env \<Rightarrow> string \<Rightarrow> User \<Rightarrow> db \<Rightarrow> (error + unit) \<times> log_entry list \<times> db" where
  "runSeparate env inp user d =
     (let inputPath = (if platform env = ''win32'' then replaceBackslashes inp else inp);
          files = glob env inputPath;
          totalImported = length files
      in case transaction d (importFiles env user (encryptionKey env) files) of
           (Inl e, d') \<Rightarrow> (Inl e, [], d')
         | (Inr u, d') \<Rightarrow> (Inr (), [reportSuccess totalImported], d'))"

text \<open>Lines 146-169: single-file mode, after the user has been resolved.\<close>

definition runSingle :: "env \<Rightarrow> string \<Rightarrow> User \<Rightarrow> db \<Rightarrow> (error + unit) \<times> log_entry list \<times> db" where
  "runSingle env inp user d =
     (case readFileSync env inp of
        Inl e \<Rightarrow> (Inl e, [], d)
      | Inr text \<Rightarrow>
          (case jsonParse env text of
             None \<Rightarrow> (Inl (SyntaxError (parseMessage env text)), [], d)
           | Some credentials \<Rightarrow>
               (case js_length credentials of
                  Inl e \<Rightarrow> (Inl e, [], d)
                | Inr totalImported \<Rightarrow>
                    if \<not> isArray credentials
                    then (Inl (Error ''File does not seem to contain credentials. Make sure the credentials are contained in an array.''), [], d)
                    else
                      (case transaction d
                              (importCredentials env user (encryptionKey env)
                                 (case credentials of JArr cs \<Rightarrow> cs | _ \<Rightarrow> [])) of
                         (Inl e, d') \<Rightarrow> (Inl e, [], d')
                       | (Inr u, d') \<Rightarrow> (Inr (), [reportSuccess totalImported], d')))))"

text \<open>Line 108: the assignee, by identifier when \<open>--userId\<close> is given, else the owner.\<close>

definition resolveUser :: "env \<Rightarrow> flags \<Rightarrow> db \<Rightarrow> error + User" where
  "resolveUser env fl d =
     (if truthy (flag_userId fl)
      then getAssignee d (case flag_userId fl of Some uid \<Rightarrow> uid | None \<Rightarrow> [])
      else getOwner env d)"

text \<open>Lines 88-170.\<close>

definition run :: "env \<Rightarrow> flags \<Rightarrow> db \<Rightarrow> (error + unit) \<times> log_entry list \<times> db" where
  "run env fl d =
     (if \<not> truthy (flag_input fl)
      then (Inr (), [Info ''An input file or directory with --input must be provided''], d)
      else
        let inp = (case flag_input fl of Some p \<Rightarrow> p | None \<Rightarrow> []) in
        if flag_separate fl \<and> existsSync env inp \<and> \<not> isDirectory env inp
        then (Inr (), [Info ''The argument to --input must be a directory''], d)
        else
          (case resolveUser env fl d of
             Inl e \<Rightarrow> (Inl e, [], d)
           | Inr user \<Rightarrow>
               if flag_separate fl then runSeparate env inp user d
               else runSingle env inp user d))"

text \<open>Lines 172-177: the handler the command framework calls when \<open>run\<close> rejects. It
  logs \<open>error.message\<close>.\<close>

fun message :: "error \<Rightarrow> string" where
  "message (TypeError m) = m"
| "message (SyntaxError m) = m"
| "message (FsError m) = m"
| "message (QueryFailedError m) = m"
| "message (Error m) = m"

definition catch :: "error \<Rightarrow> log_entry list" where
  "catch e =
     [ErrorLog ''An error occurred while importing credentials. See log messages for details.'',
      ErrorLog (message e)]"

section \<open>Notions used in the statements\<close>

text \<open>The record that the loop hands to \<open>storeCredential\<close>, given the payload \<open>dat\<close> it
  read from \<open>credential.data\<close>.\<close>

definition prepared :: "env \<Rightarrow> string \<Rightarrow> json \<Rightarrow> json option \<Rightarrow> json" where
  "prepared env key credential dat =
     (case dat of
        Some v \<Rightarrow> if typeof_object dat then setData env credential v key else credential
      | None \<Rightarrow> credential)"

text \<open>The ownership link \<open>storeCredential\<close> writes for the credential \<open>i\<close>.\<close>

definition ownerLink :: "env \<Rightarrow> User \<Rightarrow> int \<Rightarrow> SharedCredentials" where
  "ownerLink env user i =
     \<lparr>credentialsId = i, userId = user_id user, role = CREDENTIAL_OWNER env\<rparr>"

text \<open>The identifiers a batch of records carries.\<close>

fun givenIds :: "env \<Rightarrow> json list \<Rightarrow> int list" where
  "givenIds env [] = []"
| "givenIds env (c # cs) =
     (case credentialId env c of Given n \<Rightarrow> n # givenIds env cs | _ \<Rightarrow> givenIds env cs)"

text \<open>The loop stores the record \<open>c\<close> under the identifier \<open>n\<close>, as far as that
  depends on the record alone.\<close>

definition storableAs :: "env \<Rightarrow> string \<Rightarrow> json \<Rightarrow> int \<Rightarrow> bool" where
  "storableAs env key c n =
     (case js_data c of
        Inl e \<Rightarrow> False
      | Inr dat \<Rightarrow>
          rowOk env (prepared env key c dat) \<and>
          credentialId env (prepared env key c dat) = Given n)"

text \<open>The records of the files of a directory, up to the first file that cannot be read
  or parsed, and the error met there.\<close>

fun readable :: "env \<Rightarrow> string list \<Rightarrow> json list \<times> error option" where
  "readable env [] = ([], None)"
| "readable env (f # rest) =
     (case readFileSync env f of
        Inl e \<Rightarrow> ([], Some e)
      | Inr text \<Rightarrow>
          (case jsonParse env text of
             None \<Rightarrow> ([], Some (SyntaxError (parseMessage env text)))
           | Some credential \<Rightarrow>
               (case readable env rest of (cs, e) \<Rightarrow> (credential # cs, e))))"

text \<open>The record a file of the directory holds: what the parser makes of its content,
  if the file can be read and parsed.\<close>

definition fileRecord :: "env \<Rightarrow> string \<Rightarrow> json option" where
  "fileRecord env f =
     (case readFileSync env f of Inl e \<Rightarrow> None | Inr content \<Rightarrow> jsonParse env content)"



text \<open>An ownership-link table in which the key of \<open>link\<close> is present and held by
  \<open>link\<close> alone: upserting \<open>link\<close> again changes nothing.\<close>

definition settled :: "SharedCredentials \<Rightarrow> SharedCredentials list \<Rightarrow> bool" where
  "settled link rows =
     (linkKey link \<in> linkKey ` set rows \<and>
      (\<forall>r\<in>set rows. linkKey r = linkKey link \<longrightarrow> r = link))"

section \<open>A concrete installation\<close>

text \<open>Two exported credentials, the first with a plain payload and its identifier as a
  string, the second already encrypted and its identifier as a number; a second version
  of the first; and a record without an identifier.\<close>

definition credentialA :: json where
  "credentialA =
     JObj [(''id'', JStr ''1''), (''name'', JStr ''Test''), (''type'', JStr ''x''),
           (''data'', JObj [(''token'', JStr ''secret'')])]"

definition credentialB :: json where
  "credentialB =
     JObj [(''id'', JNum 2), (''name'', JStr ''Other''), (''type'', JStr ''y''),
           (''data'', JStr ''U2FsdGVkX1'')]"

definition credentialA2 :: json where
  "credentialA2 =
     JObj [(''id'', JStr ''1''), (''name'', JStr ''Renamed''), (''type'', JStr ''x''),
           (''data'', JStr ''U2FsdGVkX2'')]"

definition credentialNoId :: json where
  "credentialNoId =
     JObj [(''name'', JStr ''Lost''), (''type'', JStr ''x''), (''data'', JStr ''U2FsdGVkX3'')]"

definition textA :: string where
  \<open>textA = ''{"id":"1","name":"Test","type":"x","data":{"token":"secret"}}''\<close>

definition textB :: string where
  \<open>textB = ''{"id":2,"name":"Other","type":"y","data":"U2FsdGVkX1"}''\<close>

definition textA2 :: string where
  \<open>textA2 = ''{"id":"1","name":"Renamed","type":"x","data":"U2FsdGVkX2"}''\<close>

definition textNoId :: string where
  \<open>textNoId = ''{"name":"Lost","type":"x","data":"U2FsdGVkX3"}''\<close>

definition exampleParse :: "string \<Rightarrow> json option" where
  "exampleParse s =
     (if s = ''['' @ textA @ '','' @ textB @ '']'' then Some (JArr [credentialA, credentialB])
      else if s = ''['' @ textA @ '','' @ textA2 @ '']'' then Some (JArr [credentialA, credentialA2])
      else if s = ''['' @ textA @ '','' @ textNoId @ '']'' then Some (JArr [credentialA, credentialNoId])
      else if s = textA then Some credentialA
      else if s = textB then Some credentialB
      else if s = ''null'' then Some JNull
      else if s = ''[]'' then Some (JArr [])
      else if s = ''{}'' then Some (JObj [])
      else None)"

definition exampleFs :: "string \<Rightarrow> fs_entry option" where
  "exampleFs p =
     (if p = ''/two.json'' then Some (File (''['' @ textA @ '','' @ textB @ '']''))
      else if p = ''/dup.json'' then Some (File (''['' @ textA @ '','' @ textA2 @ '']''))
      else if p = ''/partial.json'' then Some (File (''['' @ textA @ '','' @ textNoId @ '']''))
      else if p = ''/null.json'' then Some (File ''null'')
      else if p = ''/empty.json'' then Some (File ''[]'')
      else if p = ''/object.json'' then Some (File ''{}'')
      else if p = ''/backups'' then Some Directory
      else if p = ''/backups/a.json'' then Some (File textA)
      else if p = ''/backups/b.json'' then Some (File textB)
      else None)"

text \<open>A string of decimal digits read as an integer; any other string is refused.\<close>

definition decimalInt :: "string \<Rightarrow> int option" where
  "decimalInt s =
     (if s \<noteq> [] \<and> list_all (\<lambda>c. c \<in> set ''0123456789'') s
      then Some (fold (\<lambda>c n. 10 * n + (of_char c - 48)) s 0)
      else None)"

definition hasName :: "json \<Rightarrow> bool" where
  "hasName c =
     (case c of
        JObj kvs \<Rightarrow> (case map_of kvs ''name'' of Some (JStr n) \<Rightarrow> True | _ \<Rightarrow> False)
      | _ \<Rightarrow> False)"

definition exampleEnv :: env where
  "exampleEnv =
     \<lparr>fs = exampleFs,
      glob = (\<lambda>p. if p = ''/backups'' then [''/backups/a.json'', ''/backups/b.json''] else []),
      jsonParse = exampleParse,
      encrypt = (\<lambda>key v. ''U2FsdGVkX0'' @ key),
      rowOk = hasName,
      integer_of = decimalInt,
      setvalOk = (\<lambda>n. 1 \<le> n \<and> n \<le> 2147483647),
      parseMessage = (\<lambda>s. ''Unexpected token in JSON''),
      fsMessage = (\<lambda>p. ''ENOENT: no such file or directory, open '' @ p),
      queryMessage = (\<lambda>c. ''null value in column violates not-null constraint''),
      setvalMessage = (\<lambda>n. ''setval: value is out of bounds for sequence''),
      encryptionKey = ''k'',
      database_type = ''postgresdb'',
      platform = ''linux'',
      GLOBAL_OWNER = ''global:owner'',
      CREDENTIAL_OWNER = ''credential:owner'',
      UM_FIX_INSTRUCTION = ''Please run the user management setup.''\<rparr>"

definition ownerU1 :: User where
  "ownerU1 = \<lparr>user_id = ''u1'', user_role = ''global:owner''\<rparr>"

definition exampleDb :: db where
  "exampleDb =
     \<lparr>users = [ownerU1, \<lparr>user_id = ''u2'', user_role = ''global:member''\<rparr>],
      credentials_entity = [],
      shared_credentials = [],
      credentials_entity_id_seq = None\<rparr>"

definition singleFile :: "string \<Rightarrow> flags" where
  "singleFile p = \<lparr>flag_input = Some p, flag_separate = False, flag_userId = None\<rparr>"

definition directory :: "string \<Rightarrow> flags" where
  "directory p = \<lparr>flag_input = Some p, flag_separate = True, flag_userId = None\<rparr>"

text \<open>The first example credential as it is stored, and the storage after both example
  credentials have been imported.\<close>

definition storedA :: json where
  "storedA =
     JObj [(''id'', JStr ''1''), (''name'', JStr ''Test''), (''type'', JStr ''x''),
           (''data'', JStr ''U2FsdGVkX0k'')]"

definition twoStored :: db where
  "twoStored =
     exampleDb\<lparr>credentials_entity := [(1, storedA), (2, credentialB)],
               shared_credentials :=
                 [\<lparr>credentialsId = 1, userId = ''u1'', role = ''credential:owner''\<rparr>,
                  \<lparr>credentialsId = 2, userId = ''u1'', role = ''credential:owner''\<rparr>],
               credentials_entity_id_seq := Some 2\<rparr>"

text \<open>An invocation without \<open>--input\<close> that names a user who does not exist, and an
  installation without a global owner.\<close>

definition ghostFlags :: flags where
  "ghostFlags = \<lparr>flag_input = None, flag_separate = False, flag_userId = Some ''ghost''\<rparr>"

definition noOwnerDb :: db where
  "noOwnerDb = exampleDb\<lparr>users := [\<lparr>user_id = ''u2'', user_role = ''global:member''\<rparr>]\<rparr>"

text \<open>A Postgres installation that already holds the credential 5 while its sequence
  stands at 1, and the same after the two example credentials have been imported.\<close>

definition laggingDb :: db where
  "laggingDb =
     exampleDb\<lparr>credentials_entity :=
                 [(5, JObj [(''id'', JNum 5), (''name'', JStr ''Old''), (''type'', JStr ''x''),
                            (''data'', JStr ''U2FsdGVkX5'')])],
               shared_credentials :=
                 [\<lparr>credentialsId = 5, userId = ''u1'', role = ''credential:owner''\<rparr>],
               credentials_entity_id_seq := Some 1\<rparr>"

definition laggingTwoStored :: db where
  "laggingTwoStored =
     laggingDb\<lparr>credentials_entity := credentials_entity laggingDb @ credentials_entity twoStored,
               shared_credentials := shared_credentials laggingDb @ shared_credentials twoStored,
               credentials_entity_id_seq := Some 5\<rparr>"

lemmas command_defs =
  run_def runSingle_def runSeparate_def resolveUser_def getOwner_def getAssignee_def
  transaction_def storeCredential_def upsertCredentialsEntity_def upsertRow_def
  defaultId_def upsertSharedCredentials_def linkKey_def credentialIds_def
  readFileSync_def existsSync_def isDirectory_def reportSuccess_def
  string_of_nat.simps digit_def

lemmas example_defs =
  exampleEnv_def exampleFs_def exampleParse_def exampleDb_def ownerU1_def
  singleFile_def directory_def hasName_def decimalInt_def
  credentialA_def credentialB_def credentialA2_def credentialNoId_def
  textA_def textB_def textA2_def textNoId_def

section \<open>The loops\<close>

lemma importCredentials_Cons:
  "importCredentials env user key (c # cs) d =
     (case js_data c of
        Inl e \<Rightarrow> (Inl e, d)
      | Inr dat \<Rightarrow>
          (case storeCredential env (prepared env key c dat) user d of
             (Inl e, d') \<Rightarrow> (Inl e, d')
           | (Inr u, d') \<Rightarrow> importCredentials env user key cs d'))"
  by (simp add: prepared_def split: sum.splits)

lemma ids_upsertRow:
  "credentialIds (upsertRow n c rows) =
     (if n \<in> set (credentialIds rows) then credentialIds rows else credentialIds rows @ [n])"
proof -
  have "map fst (map (\<lambda>r. if fst r = n then (n, c) else r) rows) = map fst rows"
    by (induction rows) auto
  then show ?thesis by (simp add: upsertRow_def credentialIds_def)
qed

lemma set_ids_upsertRow:
  "set (credentialIds (upsertRow n c rows)) = insert n (set (credentialIds rows))"
  by (auto simp: ids_upsertRow)

lemma upsertRow_nonempty: "upsertRow n c rows \<noteq> []"
  by (auto simp: upsertRow_def)

lemma max_id_Max: "xs \<noteq> [] \<Longrightarrow> max_id xs = Some (Max (set xs))"
  by (cases xs) (simp, simp only: max_id.simps Max.set_eq_fold)

lemma storeCredential_ok:
  assumes "storeCredential env c user d = (Inr u, d')"
  shows "\<exists>n. credentialId env c = Given n \<and> rowOk env c \<and>
            credentials_entity d' = upsertRow n c (credentials_entity d) \<and>
            shared_credentials d' =
              upsertSharedCredentials (ownerLink env user n) (shared_credentials d) \<and>
            users d' = users d"
  using assms
  by (auto simp: storeCredential_def upsertCredentialsEntity_def Let_def ownerLink_def
           split: if_splits id_value.splits option.splits prod.splits)

lemma storeCredential_users:
  "users (snd (storeCredential env c user d)) = users d"
  by (auto simp: storeCredential_def upsertCredentialsEntity_def Let_def
           split: if_splits id_value.splits option.splits prod.splits)

lemma max_id_None: "max_id xs = None \<longleftrightarrow> xs = []"
  by (cases xs) simp_all

lemma storeCredential_setval:
  assumes "database_type env = ''postgresdb''" and "storeCredential env c user d = (Inr u, d')"
  shows "credentials_entity d' \<noteq> [] \<and>
         (\<exists>m. max_id (credentialIds (credentials_entity d')) = Some m \<and> setvalOk env m \<and>
              credentials_entity_id_seq d' = Some m)"
  using assms upsertRow_nonempty
  by (auto simp: storeCredential_def upsertCredentialsEntity_def Let_def credentialIds_def
                 max_id_None
           split: if_splits id_value.splits option.splits prod.splits)

lemma storeCredential_seq:
  assumes "database_type env = ''postgresdb''" and "storeCredential env c user d = (Inr u, d')"
  shows "credentials_entity d' \<noteq> [] \<and>
         setvalOk env (Max (set (credentialIds (credentials_entity d')))) \<and>
         credentials_entity_id_seq d' = Some (Max (set (credentialIds (credentials_entity d'))))"
proof -
  have ne: "credentials_entity d' \<noteq> []"
    using storeCredential_setval [OF assms] by blast
  then have "max_id (credentialIds (credentials_entity d')) =
             Some (Max (set (credentialIds (credentials_entity d'))))"
    by (intro max_id_Max) (simp add: credentialIds_def)
  then show ?thesis using storeCredential_setval [OF assms] by auto
qed

text \<open>Whether a record is stored depends on the record and, through the bounds of the
  sequence, on the identifiers in the table; on nothing else of the storage.\<close>

lemma storeCredential_ok_iff:
  "fst (storeCredential env c user d) = Inr () \<longleftrightarrow>
     rowOk env c \<and>
     (\<exists>n. credentialId env c = Given n \<and>
          (database_type env = ''postgresdb'' \<longrightarrow>
             setvalOk env (Max (insert n (set (credentialIds (credentials_entity d)))))))"
proof -
  have m: "max_id (credentialIds (upsertRow n c (credentials_entity d))) =
           Some (Max (insert n (set (credentialIds (credentials_entity d)))))" for n
    using max_id_Max [of "credentialIds (upsertRow n c (credentials_entity d))"]
          upsertRow_nonempty [of n c "credentials_entity d"]
    by (simp add: set_ids_upsertRow) (simp add: credentialIds_def)
  show ?thesis
    by (auto simp: storeCredential_def upsertCredentialsEntity_def Let_def m
             split: if_splits id_value.splits option.splits prod.splits)
qed

lemma storeCredential_fst_rows:
  assumes "credentials_entity d = credentials_entity d0"
  shows "fst (storeCredential env c user d) = Inr () \<longleftrightarrow>
         fst (storeCredential env c user d0) = Inr ()"
  using assms by (simp add: storeCredential_ok_iff)

text \<open>The loop over the files is the loop over the records read from them, followed by
  the error of the first file that could not be read.\<close>

lemma importFiles_readable:
  "importFiles env user key files d =
     (case readable env files of
        (cs, e) \<Rightarrow>
          (case importCredentials env user key cs d of
             (Inl x, d') \<Rightarrow> (Inl x, d')
           | (Inr u, d') \<Rightarrow> (case e of None \<Rightarrow> (Inr (), d') | Some x \<Rightarrow> (Inl x, d'))))"
proof (induction files arbitrary: d)
  case Nil
  show ?case by simp
next
  case (Cons f rest)
  show ?case
    by (simp add: Cons.IH prepared_def split: sum.splits option.splits prod.splits)
qed

declare importCredentials.simps(2) [simp del]

lemma importCredentials_users:
  "users (snd (importCredentials env user key cs d)) = users d"
proof (induction cs arbitrary: d)
  case Nil
  show ?case by simp
next
  case (Cons c cs)
  show ?case
  proof (cases "js_data c")
    case (Inl e)
    then show ?thesis by (simp add: importCredentials_Cons)
  next
    case (Inr dat)
    obtain r d1 where s: "storeCredential env (prepared env key c dat) user d = (r, d1)"
      by (cases "storeCredential env (prepared env key c dat) user d")
    have u: "users d1 = users d"
      using storeCredential_users [of env "prepared env key c dat" user d] s by simp
    show ?thesis
      using Inr s u Cons.IH [of d1] by (cases r) (simp_all add: importCredentials_Cons)
  qed
qed

section \<open>One transaction per invocation\<close>

text \<open>
  Claim C1. Every write of an invocation is made through the entity manager of the one
  transaction the invocation opens. Whenever the invocation fails, whether before the
  transaction or at a parse or persistence step partway through the batch, the
  credentials table, the ownership-link table and the user table are exactly as they
  were before the invocation.
\<close>

theorem failed_run_keeps_tables:
  assumes "run env fl d = (Inl e, lg, d')"
  shows "credentials_entity d' = credentials_entity d \<and>
         shared_credentials d' = shared_credentials d \<and>
         users d' = users d"
  using assms
  by (auto simp: run_def runSeparate_def runSingle_def transaction_def Let_def
           split: if_splits sum.splits option.splits prod.splits)

text \<open>A batch whose second record has no identifier: inside the transaction the first
  record had been written and the second inserted under the next value of the sequence,
  when line 190 threw; after the failed invocation no table holds either, and only the
  sequence has moved.\<close>

theorem failed_run_keeps_tables_witness:
  "run exampleEnv (singleFile ''/partial.json'') exampleDb =
     (Inl (TypeError ''Cannot read properties of undefined (reading 'id')''), [],
      exampleDb\<lparr>credentials_entity_id_seq := Some 2\<rparr>) \<and>
   credentials_entity
     (snd (importCredentials exampleEnv ownerU1 ''k'' [credentialA, credentialNoId] exampleDb)) =
     [(1, storedA), (2, credentialNoId)] \<and>
   credentials_entity (exampleDb\<lparr>credentials_entity_id_seq := Some 2\<rparr>) =
     credentials_entity exampleDb \<and>
   shared_credentials (exampleDb\<lparr>credentials_entity_id_seq := Some 2\<rparr>) =
     shared_credentials exampleDb \<and>
   users (exampleDb\<lparr>credentials_entity_id_seq := Some 2\<rparr>) = users exampleDb"
proof -
  have r: "run exampleEnv (singleFile ''/partial.json'') exampleDb =
     (Inl (TypeError ''Cannot read properties of undefined (reading 'id')''), [],
      exampleDb\<lparr>credentials_entity_id_seq := Some 2\<rparr>)"
    by (simp add: command_defs example_defs importCredentials_Cons prepared_def)
  have w: "credentials_entity
     (snd (importCredentials exampleEnv ownerU1 ''k'' [credentialA, credentialNoId] exampleDb)) =
     [(1, storedA), (2, credentialNoId)]"
    by (simp add: command_defs example_defs importCredentials_Cons prepared_def storedA_def)
  from failed_run_keeps_tables [OF r] r w show ?thesis by simp
qed

section \<open>Plain payloads are encrypted, encrypted ones pass through\<close>





lemma credentialId_prepared:
  "js_data c = Inr dat \<Longrightarrow> credentialId env (prepared env key c dat) = credentialId env c"
  by (cases c) (auto simp: prepared_def update_conv' split: option.splits)







lemma importFiles_ok:
  "importFiles env user key files d = (Inr (), d') \<longleftrightarrow>
   (\<exists>cs. readable env files = (cs, None) \<and> importCredentials env user key cs d = (Inr (), d'))"
  by (auto simp: importFiles_readable split: prod.splits sum.splits option.splits)



lemma run_single_ok:
  assumes "run env fl d = (Inr (), lg, d')"
    and "flag_input fl = Some p" and "p \<noteq> []" and "\<not> flag_separate fl"
    and "readFileSync env p = Inr content" and "jsonParse env content = Some (JArr cs)"
  shows "\<exists>u. resolveUser env fl d = Inr u \<and>
             importCredentials env u (encryptionKey env) cs d = (Inr (), d') \<and>
             lg = [reportSuccess (length cs)]"
  using assms
  by (auto simp: run_def runSingle_def transaction_def
           split: sum.splits prod.splits if_splits)



text \<open>Both cases at work: the first example credential has a plain payload and is
  imported from the single file, the second is already encrypted and is imported from
  a file of the directory.\<close>

lemma two_single:
  "run exampleEnv (singleFile ''/two.json'') exampleDb =
     (Inr (), [Info ''Successfully imported 2 credentials.''], twoStored)"
  by (simp add: command_defs example_defs importCredentials_Cons prepared_def twoStored_def
                storedA_def)



section \<open>Inputs the command turns away\<close>

lemma find_None_iff_ball: "find P xs = None \<longleftrightarrow> (\<forall>x\<in>set xs. \<not> P x)"
  by (auto simp: find_None_iff)

subsection \<open>A single file that does not hold an array\<close>

text \<open>
  Claim C10. In single-file mode the count is read from the parsed value (line 150)
  before the value is checked to be an array (line 152). For a parsed value whose
  \<open>length\<close> cannot be read, such as \<open>null\<close>, the command fails with the error of that
  read: the value is not an array, and yet the error is not the one saying that the
  file does not seem to contain credentials. Nothing is written.
\<close>

theorem null_crashes_before_array_check:
  assumes "flag_input fl = Some p" and "p \<noteq> []" and "\<not> flag_separate fl"
    and "resolveUser env fl d = Inr user"
    and "readFileSync env p = Inr content" and "jsonParse env content = Some v"
    and "js_length v = Inl e"
  shows "run env fl d = (Inl e, [], d) \<and> \<not> isArray v \<and>
         e \<noteq> Error ''File does not seem to contain credentials. Make sure the credentials are contained in an array.''"
proof -
  have "v = JNull" using assms(7) by (cases v) auto
  then show ?thesis using assms by (auto simp: run_def runSingle_def)
qed

text \<open>The file \<open>/null.json\<close>, whose content is \<open>null\<close>.\<close>

theorem null_crashes_before_array_check_witness:
  "js_length JNull = Inl (TypeError ''Cannot read properties of null (reading 'length')'') \<and>
   run exampleEnv (singleFile ''/null.json'') exampleDb =
     (Inl (TypeError ''Cannot read properties of null (reading 'length')''), [], exampleDb) \<and>
   \<not> isArray JNull"
proof -
  have u: "resolveUser exampleEnv (singleFile ''/null.json'') exampleDb = Inr ownerU1"
    by (simp add: command_defs example_defs)
  have r: "readFileSync exampleEnv ''/null.json'' = Inr ''null''"
    by (simp add: command_defs example_defs)
  have j: "jsonParse exampleEnv ''null'' = Some JNull"
    by (simp add: example_defs)
  have l: "js_length JNull = Inl (TypeError ''Cannot read properties of null (reading 'length')'')"
    by simp
  from null_crashes_before_array_check [OF _ _ _ u r j l] l show ?thesis
    by (simp add: singleFile_def)
qed

text \<open>Every other value that is not an array is rejected with the message of line 154.\<close>

lemma non_array_rejected:
  assumes "flag_input fl = Some p" and "p \<noteq> []" and "\<not> flag_separate fl"
    and "resolveUser env fl d = Inr user"
    and "readFileSync env p = Inr content" and "jsonParse env content = Some v"
    and "\<not> isArray v" and "v \<noteq> JNull"
  shows "run env fl d =
    (Inl (Error ''File does not seem to contain credentials. Make sure the credentials are contained in an array.''), [], d)"
  using assms by (cases v) (auto simp: run_def runSingle_def)

text \<open>
  Claim C8. A single file whose content is not an array is to be rejected with the
  error saying that the file does not seem to contain credentials. The content \<open>null\<close>
  parses, and is not an array; the command rejects with the \<open>TypeError\<close> of the length
  read, which is what the handler logs, whereas the content \<open>{}\<close> gets the message.
\<close>

theorem null_file_not_reported_as_not_an_array:
  "jsonParse exampleEnv ''null'' = Some JNull \<and>
   run exampleEnv (singleFile ''/null.json'') exampleDb =
     (Inl (TypeError ''Cannot read properties of null (reading 'length')''), [], exampleDb) \<and>
   catch (TypeError ''Cannot read properties of null (reading 'length')'') =
     [ErrorLog ''An error occurred while importing credentials. See log messages for details.'',
      ErrorLog ''Cannot read properties of null (reading 'length')''] \<and>
   run exampleEnv (singleFile ''/object.json'') exampleDb =
     (Inl (Error ''File does not seem to contain credentials. Make sure the credentials are contained in an array.''), [], exampleDb)"
  by (simp add: command_defs example_defs catch_def)

subsection \<open>Directory mode on a path that is not a directory\<close>

text \<open>Directory mode on a path that does not exist: the check of lines 97-104 does not
  apply, the glob finds no file, and the command reports a successful import of 0
  credentials.\<close>

theorem missing_directory_counterexample:
  "flag_separate (directory ''/missing'') \<and>
   flag_input (directory ''/missing'') = Some ''/missing'' \<and>
   \<not> existsSync exampleEnv ''/missing'' \<and>
   run exampleEnv (directory ''/missing'') exampleDb =
     (Inr (), [Info ''Successfully imported 0 credentials.''], exampleDb)"
  by (simp add: command_defs example_defs)

text \<open>
  Claim C6, as the code has it. In directory mode, for every input path that exists but
  is not a directory, the command logs that the argument must be a directory and ends
  without error and without any database write. A path that does not exist is not
  turned away: the run goes on to resolve the assignee and to glob the path.
\<close>

theorem not_a_directory_soft_exit:
  assumes "flag_separate fl" and "flag_input fl = Some p" and "p \<noteq> []"
  shows "(existsSync env p \<and> \<not> isDirectory env p \<longrightarrow>
            run env fl d = (Inr (), [Info ''The argument to --input must be a directory''], d)) \<and>
         (\<not> existsSync env p \<longrightarrow>
            run env fl d =
              (case resolveUser env fl d of
                 Inl e \<Rightarrow> (Inl e, [], d)
               | Inr user \<Rightarrow> runSeparate env p user d))"
  using assms by (auto simp: run_def split: sum.splits)

text \<open>A path that is a file, and a path that does not exist.\<close>

theorem not_a_directory_soft_exit_witness:
  "flag_separate (directory ''/two.json'') \<and>
   existsSync exampleEnv ''/two.json'' \<and> \<not> isDirectory exampleEnv ''/two.json'' \<and>
   run exampleEnv (directory ''/two.json'') exampleDb =
     (Inr (), [Info ''The argument to --input must be a directory''], exampleDb) \<and>
   \<not> existsSync exampleEnv ''/missing'' \<and>
   run exampleEnv (directory ''/missing'') exampleDb =
     (case resolveUser exampleEnv (directory ''/missing'') exampleDb of
        Inl e \<Rightarrow> (Inl e, [], exampleDb)
      | Inr user \<Rightarrow> runSeparate exampleEnv ''/missing'' user exampleDb)"
proof -
  have e: "existsSync exampleEnv ''/two.json'' \<and> \<not> isDirectory exampleEnv ''/two.json''"
    by (simp add: command_defs example_defs)
  have m: "\<not> existsSync exampleEnv ''/missing''"
    by (simp add: command_defs example_defs)
  have s: "flag_separate (directory q)" "flag_input (directory q) = Some q" for q
    by (simp_all add: directory_def)
  have n: "''/two.json'' \<noteq> []" "''/missing'' \<noteq> []" by simp_all
  from not_a_directory_soft_exit [OF s(1) s(2) n(1), of exampleEnv exampleDb]
       not_a_directory_soft_exit [OF s(1) s(2) n(2), of exampleEnv exampleDb]
       e m s
  show ?thesis by simp
qed

subsection \<open>An assignee that cannot be resolved\<close>

text \<open>An invocation without \<open>--input\<close> whose \<open>--userId\<close> matches no user: the command
  logs that an input must be provided and ends without error.\<close>

theorem unresolved_assignee_counterexample:
  "flag_userId ghostFlags = Some ''ghost'' \<and>
   getAssignee exampleDb ''ghost'' = Inl (Error ''Failed to find user with ID ghost'') \<and>
   run exampleEnv ghostFlags exampleDb =
     (Inr (), [Info ''An input file or directory with --input must be provided''], exampleDb)"
  by (simp add: command_defs example_defs ghostFlags_def)

text \<open>
  Claim C7, as the code has it. For every invocation that gives an input path and is
  not stopped by the directory check, when the assignee cannot be resolved (a
  non-empty \<open>--userId\<close> that matches no user, or no \<open>--userId\<close>, or an empty one, and
  no user holding the global-owner role) the command rejects with the descriptive
  error, before the transaction is opened: the storage is unchanged.
\<close>

theorem unresolved_assignee_fails_before_writes:
  assumes "flag_input fl = Some p" and "p \<noteq> []"
    and "\<not> (flag_separate fl \<and> existsSync env p \<and> \<not> isDirectory env p)"
  shows "(flag_userId fl = Some uid \<and> uid \<noteq> [] \<and> (\<forall>u\<in>set (users d). user_id u \<noteq> uid) \<longrightarrow>
            run env fl d = (Inl (Error (''Failed to find user with ID '' @ uid)), [], d)) \<and>
         (\<not> truthy (flag_userId fl) \<and> (\<forall>u\<in>set (users d). user_role u \<noteq> GLOBAL_OWNER env) \<longrightarrow>
            run env fl d =
              (Inl (Error (''Failed to find owner. '' @ UM_FIX_INSTRUCTION env)), [], d))"
proof -
  have a: "getAssignee d uid = Inl (Error (''Failed to find user with ID '' @ uid))"
    if "\<forall>u\<in>set (users d). user_id u \<noteq> uid"
    using that by (simp add: getAssignee_def find_None_iff_ball [THEN iffD2])
  have b: "getOwner env d = Inl (Error (''Failed to find owner. '' @ UM_FIX_INSTRUCTION env))"
    if "\<forall>u\<in>set (users d). user_role u \<noteq> GLOBAL_OWNER env"
    using that by (simp add: getOwner_def find_None_iff_ball [THEN iffD2])
  show ?thesis using assms a b by (auto simp: run_def resolveUser_def)
qed

text \<open>A user identifier that matches nobody, and an installation without an owner.\<close>

theorem unresolved_assignee_fails_before_writes_witness:
  "run exampleEnv ((singleFile ''/two.json'')\<lparr>flag_userId := Some ''ghost''\<rparr>) exampleDb =
     (Inl (Error ''Failed to find user with ID ghost''), [], exampleDb) \<and>
   run exampleEnv (singleFile ''/two.json'') noOwnerDb =
     (Inl (Error ''Failed to find owner. Please run the user management setup.''), [], noOwnerDb)"
proof -
  have i: "flag_input ((singleFile ''/two.json'')\<lparr>flag_userId := u\<rparr>) = Some ''/two.json''"
    "\<not> (flag_separate ((singleFile ''/two.json'')\<lparr>flag_userId := u\<rparr>) \<and>
        existsSync exampleEnv ''/two.json'' \<and> \<not> isDirectory exampleEnv ''/two.json'')" for u
    by (simp_all add: singleFile_def)
  have n: "''/two.json'' \<noteq> []" by simp
  have g: "flag_userId ((singleFile ''/two.json'')\<lparr>flag_userId := Some ''ghost''\<rparr>) = Some ''ghost'' \<and>
           ''ghost'' \<noteq> [] \<and> (\<forall>u\<in>set (users exampleDb). user_id u \<noteq> ''ghost'')"
    by (simp add: example_defs)
  have o: "\<not> truthy (flag_userId ((singleFile ''/two.json'')\<lparr>flag_userId := None\<rparr>)) \<and>
           (\<forall>u\<in>set (users noOwnerDb). user_role u \<noteq> GLOBAL_OWNER exampleEnv)"
    by (simp add: example_defs noOwnerDb_def)
  have same: "(singleFile ''/two.json'')\<lparr>flag_userId := None\<rparr> = singleFile ''/two.json''"
    by (simp add: singleFile_def)
  from unresolved_assignee_fails_before_writes [OF i(1) n i(2),
         where uid = "''ghost''" and d = exampleDb, THEN conjunct1, rule_format, OF g]
       unresolved_assignee_fails_before_writes [OF i(1) n i(2),
         where uid = "''ghost''" and d = noOwnerDb, THEN conjunct2, rule_format, OF o]
  show ?thesis by (simp add: same exampleEnv_def)
qed

section \<open>Directory mode and single-file mode\<close>

lemma readable_all:
  "map (fileRecord env) files = map Some cs \<Longrightarrow> readable env files = (cs, None)"
proof (induction files arbitrary: cs)
  case Nil
  then show ?case by simp
next
  case (Cons f rest)
  then obtain c cs' where cs: "cs = c # cs'" by (cases cs) auto
  have f: "fileRecord env f = Some c" and r: "map (fileRecord env) rest = map Some cs'"
    using Cons.prems cs by simp_all
  have "readable env rest = (cs', None)" using Cons.IH [OF r] .
  then show ?case using f cs
    by (auto simp: fileRecord_def split: sum.splits)
qed

text \<open>
  Claim C5. A directory-mode run over a directory whose JSON files each hold one
  credential record ends exactly as the single-file run whose input is the array of
  those records, in the order of the files: the same result, the same report, the same
  storage.
\<close>

theorem directory_run_equals_single_file_run:
  assumes "flag_input fld = Some dir" and "dir \<noteq> []" and "flag_separate fld"
    and "isDirectory env dir"
    and "glob env (if platform env = ''win32'' then replaceBackslashes dir else dir) = files"
    and "map (fileRecord env) files = map Some cs"
    and "flag_input fls = Some file" and "file \<noteq> []" and "\<not> flag_separate fls"
    and "readFileSync env file = Inr content" and "jsonParse env content = Some (JArr cs)"
    and "flag_userId fls = flag_userId fld"
  shows "run env fld d = run env fls d"
proof -
  have len: "length files = length cs"
    using assms(6) by (metis length_map)
  have u: "resolveUser env fld d = resolveUser env fls d"
    using assms(12) by (simp add: resolveUser_def)
  show ?thesis
  proof (cases "resolveUser env fls d")
    case (Inl e)
    then show ?thesis using assms u by (simp add: run_def)
  next
    case (Inr user)
    have "importFiles env user (encryptionKey env) files =
          importCredentials env user (encryptionKey env) cs"
      using readable_all [OF assms(6)]
      by (auto simp: importFiles_readable fun_eq_iff split: prod.splits sum.splits)
    then have "runSeparate env dir user d = runSingle env file user d"
      unfolding runSeparate_def runSingle_def Let_def assms(5)
      using assms(10,11) len by (simp split: prod.splits sum.splits)
    then show ?thesis using assms u Inr by (simp add: run_def)
  qed
qed

text \<open>The directory \<open>/backups\<close> with its two files, against the file \<open>/two.json\<close> that
  holds both records.\<close>

lemma two_records: "map (fileRecord exampleEnv) [''/backups/a.json'', ''/backups/b.json''] =
        map Some [credentialA, credentialB]"
  by (simp add: fileRecord_def command_defs example_defs)

theorem directory_run_equals_single_file_run_witness:
  "run exampleEnv (directory ''/backups'') exampleDb = run exampleEnv (singleFile ''/two.json'') exampleDb \<and>
   run exampleEnv (singleFile ''/two.json'') exampleDb =
     (Inr (), [Info ''Successfully imported 2 credentials.''], twoStored)"
proof -
  have g: "glob exampleEnv (if platform exampleEnv = ''win32'' then replaceBackslashes ''/backups''
                            else ''/backups'') = [''/backups/a.json'', ''/backups/b.json'']"
    by (simp add: exampleEnv_def)
  have r: "readFileSync exampleEnv ''/two.json'' = Inr (''['' @ textA @ '','' @ textB @ '']'')"
    by (simp add: command_defs example_defs)
  have j: "jsonParse exampleEnv (''['' @ textA @ '','' @ textB @ '']'') = Some (JArr [credentialA, credentialB])"
    by (simp add: example_defs)
  have i: "isDirectory exampleEnv ''/backups''"
    by (simp add: command_defs example_defs)
  have e: "run exampleEnv (directory ''/backups'') exampleDb = run exampleEnv (singleFile ''/two.json'') exampleDb"
    by (rule directory_run_equals_single_file_run [OF _ _ _ i g two_records _ _ _ r j])
       (simp_all add: directory_def singleFile_def)
  from e two_single show ?thesis by simp
qed

section \<open>Rows and ownership links after a single-file run\<close>

lemma set_givenIds: "n \<in> set (givenIds env cs) \<longleftrightarrow> Given n \<in> credentialId env ` set cs"
proof (induction cs)
  case Nil
  show ?case by simp
next
  case (Cons c cs)
  then show ?case by (cases "credentialId env c") auto
qed

lemma importCredentials_fresh:
  assumes "importCredentials env user key cs d = (Inr (), d')"
    and "distinct (map (credentialId env) cs)"
    and "\<forall>c\<in>set cs. \<forall>n. credentialId env c = Given n \<longrightarrow>
           n \<notin> set (credentialIds (credentials_entity d))"
    and "\<forall>l\<in>set (shared_credentials d). Given (credentialsId l) \<notin> credentialId env ` set cs"
  shows "credentialIds (credentials_entity d') =
           credentialIds (credentials_entity d) @ givenIds env cs \<and>
         shared_credentials d' =
           shared_credentials d @ map (ownerLink env user) (givenIds env cs) \<and>
         length (givenIds env cs) = length cs"
  using assms
proof (induction cs arbitrary: d)
  case Nil
  then show ?case by simp
next
  case (Cons c cs)
  from Cons.prems(1) obtain dat where dat: "js_data c = Inr dat"
    by (cases "js_data c") (simp_all add: importCredentials_Cons)
  let ?c = "prepared env key c dat"
  obtain r d1 where s: "storeCredential env ?c user d = (r, d1)"
    by (cases "storeCredential env ?c user d")
  have r: "r = Inr ()" using Cons.prems(1) dat s
    by (cases r) (simp_all add: importCredentials_Cons)
  have rest: "importCredentials env user key cs d1 = (Inr (), d')"
    using Cons.prems(1) dat s r by (simp add: importCredentials_Cons)
  obtain i where i: "credentialId env ?c = Given i"
    and rows: "credentials_entity d1 = upsertRow i ?c (credentials_entity d)"
    and links: "shared_credentials d1 =
       upsertSharedCredentials (ownerLink env user i) (shared_credentials d)"
    using storeCredential_ok [of env ?c user d "()" d1] s r by blast
  have ci: "credentialId env c = Given i" using i credentialId_prepared [OF dat] by simp
  have fresh: "i \<notin> set (credentialIds (credentials_entity d))"
    using Cons.prems(3) ci by simp
  have ids1: "credentialIds (credentials_entity d1) = credentialIds (credentials_entity d) @ [i]"
    using rows fresh by (simp add: ids_upsertRow)
  have "\<forall>l\<in>set (shared_credentials d). credentialsId l \<noteq> i"
    using Cons.prems(4) ci by (auto simp: image_iff)
  then have "linkKey (ownerLink env user i) \<notin> set (map linkKey (shared_credentials d))"
    by (auto simp: ownerLink_def linkKey_def)
  then have links1: "shared_credentials d1 = shared_credentials d @ [ownerLink env user i]"
    using links by (simp add: upsertSharedCredentials_def)
  have p2: "distinct (map (credentialId env) cs)" using Cons.prems(2) by simp
  have notin: "Given i \<notin> credentialId env ` set cs" using Cons.prems(2) ci by simp
  have p3: "\<forall>c\<in>set cs. \<forall>n. credentialId env c = Given n \<longrightarrow>
              n \<notin> set (credentialIds (credentials_entity d1))"
    using Cons.prems(3) ids1 notin by (auto simp: image_iff)
  have p4: "\<forall>l\<in>set (shared_credentials d1). Given (credentialsId l) \<notin> credentialId env ` set cs"
    using Cons.prems(4) links1 notin by (auto simp: ownerLink_def)
  from Cons.IH [OF rest p2 p3 p4] ids1 links1 ci
  show ?case by simp
qed

text \<open>The identifier is the integer of the column: the string \<open>"07"\<close> and the number 7
  name one row.\<close>

lemma same_integer_same_identifier:
  "credentialId exampleEnv (JObj [(''id'', JStr ''07'')]) =
   credentialId exampleEnv (JObj [(''id'', JNum 7)])"
  by (simp add: exampleEnv_def decimalInt_def)

text \<open>A file of two well-formed records that carry the same identifier: the run
  succeeds and reports 2 credentials, and one credentials row and one ownership link
  exist, because the second record replaces the first.\<close>

theorem duplicate_ids_counterexample:
  "readFileSync exampleEnv ''/dup.json'' = Inr (''['' @ textA @ '','' @ textA2 @ '']'') \<and>
   jsonParse exampleEnv (''['' @ textA @ '','' @ textA2 @ '']'') =
     Some (JArr [credentialA, credentialA2]) \<and>
   run exampleEnv (singleFile ''/dup.json'') exampleDb =
     (Inr (), [Info ''Successfully imported 2 credentials.''],
      exampleDb\<lparr>credentials_entity := [(1, credentialA2)],
                shared_credentials :=
                  [\<lparr>credentialsId = 1, userId = ''u1'', role = ''credential:owner''\<rparr>],
                credentials_entity_id_seq := Some 1\<rparr>) \<and>
   length [credentialA, credentialA2] = 2 \<and>
   length (credentials_entity
     (snd (snd (run exampleEnv (singleFile ''/dup.json'') exampleDb)))) = 1 \<and>
   length (shared_credentials
     (snd (snd (run exampleEnv (singleFile ''/dup.json'') exampleDb)))) = 1"
proof -
  have r: "run exampleEnv (singleFile ''/dup.json'') exampleDb =
     (Inr (), [Info ''Successfully imported 2 credentials.''],
      exampleDb\<lparr>credentials_entity := [(1, credentialA2)],
                shared_credentials :=
                  [\<lparr>credentialsId = 1, userId = ''u1'', role = ''credential:owner''\<rparr>],
                credentials_entity_id_seq := Some 1\<rparr>)"
    by (simp add: command_defs example_defs importCredentials_Cons prepared_def)
  have f: "readFileSync exampleEnv ''/dup.json'' = Inr (''['' @ textA @ '','' @ textA2 @ '']'')"
    by (simp add: command_defs example_defs)
  have j: "jsonParse exampleEnv (''['' @ textA @ '','' @ textA2 @ '']'') =
     Some (JArr [credentialA, credentialA2])"
    by (simp add: example_defs)
  from r f j show ?thesis by simp
qed

text \<open>
  Claim C3, as the code has it. For every valid single-file input of N well-formed
  records whose identifiers are pairwise distinct and not yet stored (no credentials
  row and no ownership link carries one of them), a successful run adds exactly N
  credentials rows, those of the batch's identifiers, and exactly N ownership links,
  and every added link pairs a stored credential with the resolved assignee, in the
  role of credential owner. Into empty tables, exactly N of each exist after the run.
\<close>

theorem distinct_fresh_batch_row_counts:
  assumes "run env fl d = (Inr (), lg, d')"
    and "flag_input fl = Some p" and "p \<noteq> []" and "\<not> flag_separate fl"
    and "readFileSync env p = Inr content" and "jsonParse env content = Some (JArr cs)"
    and "distinct (map (credentialId env) cs)"
    and "\<forall>c\<in>set cs. \<forall>n. credentialId env c = Given n \<longrightarrow>
           n \<notin> set (credentialIds (credentials_entity d))"
    and "\<forall>l\<in>set (shared_credentials d). Given (credentialsId l) \<notin> credentialId env ` set cs"
  shows "length (credentials_entity d') = length (credentials_entity d) + length cs \<and>
         credentialIds (credentials_entity d') =
           credentialIds (credentials_entity d) @ givenIds env cs \<and>
         (\<exists>u new. resolveUser env fl d = Inr u \<and>
              shared_credentials d' = shared_credentials d @ new \<and>
              length new = length cs \<and>
              (\<forall>l\<in>set new.
                  userId l = user_id u \<and> role l = CREDENTIAL_OWNER env \<and>
                  credentialsId l \<in> set (credentialIds (credentials_entity d'))))"
proof -
  obtain u where u: "resolveUser env fl d = Inr u"
    and imp: "importCredentials env u (encryptionKey env) cs d = (Inr (), d')"
    using run_single_ok [OF assms(1-6)] by blast
  have f: "credentialIds (credentials_entity d') =
             credentialIds (credentials_entity d) @ givenIds env cs"
    and l: "shared_credentials d' =
              shared_credentials d @ map (ownerLink env u) (givenIds env cs)"
    and a: "length (givenIds env cs) = length cs"
    using importCredentials_fresh [OF imp assms(7-9)] by simp_all
  have "length (credentialIds (credentials_entity d')) =
        length (credentialIds (credentials_entity d)) + length cs"
    using f a by simp
  then have n1: "length (credentials_entity d') = length (credentials_entity d) + length cs"
    by (simp add: credentialIds_def)
  let ?new = "map (ownerLink env u) (givenIds env cs)"
  have "\<forall>l\<in>set ?new.
          userId l = user_id u \<and> role l = CREDENTIAL_OWNER env \<and>
          credentialsId l \<in> set (credentialIds (credentials_entity d'))"
    using f by (auto simp: ownerLink_def)
  moreover have "length ?new = length cs" using a by simp
  ultimately show ?thesis using n1 f l u by blast
qed

text \<open>The file \<open>/two.json\<close> imported into the installation that already holds the
  credential 5.\<close>

lemma two_into_lagging:
  "run exampleEnv (singleFile ''/two.json'') laggingDb =
     (Inr (), [Info ''Successfully imported 2 credentials.''], laggingTwoStored)"
  by (simp add: command_defs example_defs laggingDb_def twoStored_def laggingTwoStored_def
                storedA_def importCredentials_Cons prepared_def)

theorem distinct_fresh_batch_row_counts_witness:
  "run exampleEnv (singleFile ''/two.json'') laggingDb =
     (Inr (), [Info ''Successfully imported 2 credentials.''], laggingTwoStored) \<and>
   distinct (map (credentialId exampleEnv) [credentialA, credentialB]) \<and>
   length (credentials_entity laggingDb) = 1 \<and>
   length (credentials_entity laggingTwoStored) = 1 + length [credentialA, credentialB] \<and>
   credentialIds (credentials_entity laggingTwoStored) = [5, 1, 2] \<and>
   (\<exists>u new. resolveUser exampleEnv (singleFile ''/two.json'') laggingDb = Inr u \<and>
        shared_credentials laggingTwoStored = shared_credentials laggingDb @ new \<and>
        length new = length [credentialA, credentialB] \<and>
        (\<forall>l\<in>set new.
            userId l = user_id u \<and> role l = CREDENTIAL_OWNER exampleEnv \<and>
            credentialsId l \<in> set (credentialIds (credentials_entity laggingTwoStored))))"
proof -
  have r: "readFileSync exampleEnv ''/two.json'' = Inr (''['' @ textA @ '','' @ textB @ '']'')"
    by (simp add: command_defs example_defs)
  have j: "jsonParse exampleEnv (''['' @ textA @ '','' @ textB @ '']'') =
             Some (JArr [credentialA, credentialB])"
    by (simp add: example_defs)
  have di: "distinct (map (credentialId exampleEnv) [credentialA, credentialB])"
    by (simp add: example_defs)
  have fr: "\<forall>c\<in>set [credentialA, credentialB]. \<forall>n. credentialId exampleEnv c = Given n \<longrightarrow>
              n \<notin> set (credentialIds (credentials_entity laggingDb))"
    by (simp add: example_defs laggingDb_def credentialIds_def)
  have fl: "\<forall>l\<in>set (shared_credentials laggingDb).
              Given (credentialsId l) \<notin> credentialId exampleEnv ` set [credentialA, credentialB]"
    by (simp add: example_defs laggingDb_def)
  have i: "flag_input (singleFile ''/two.json'') = Some ''/two.json''"
    "''/two.json'' \<noteq> []" "\<not> flag_separate (singleFile ''/two.json'')"
    by (simp_all add: singleFile_def)
  have g: "givenIds exampleEnv [credentialA, credentialB] = [1, 2]"
    by (simp add: example_defs)
  have o: "length (credentials_entity laggingDb) = 1"
    "credentialIds (credentials_entity laggingDb) = [5]"
    by (simp_all add: laggingDb_def exampleDb_def credentialIds_def)
  note T = distinct_fresh_batch_row_counts [OF two_into_lagging i r j di fr fl]
  have a: "length (credentials_entity laggingTwoStored) = 1 + length [credentialA, credentialB]"
    using T o by simp
  have b: "credentialIds (credentials_entity laggingTwoStored) = [5, 1, 2]"
    using T o g by simp
  from two_into_lagging di o(1) a b T show ?thesis by blast
qed

section \<open>The identifier sequence on Postgres\<close>

lemma importCredentials_seq:
  assumes "database_type env = ''postgresdb''"
    and "importCredentials env user key cs d = (Inr (), d')" and "cs \<noteq> []"
  shows "credentials_entity d' \<noteq> [] \<and>
         setvalOk env (Max (set (credentialIds (credentials_entity d')))) \<and>
         credentials_entity_id_seq d' = Some (Max (set (credentialIds (credentials_entity d'))))"
  using assms(2,3)
proof (induction cs arbitrary: d)
  case Nil
  then show ?case by simp
next
  case (Cons c cs)
  from Cons.prems(1) obtain dat where dat: "js_data c = Inr dat"
    by (cases "js_data c") (simp_all add: importCredentials_Cons)
  let ?c = "prepared env key c dat"
  obtain r d1 where s: "storeCredential env ?c user d = (r, d1)"
    by (cases "storeCredential env ?c user d")
  have r: "r = Inr ()" using Cons.prems(1) dat s
    by (cases r) (simp_all add: importCredentials_Cons)
  have rest: "importCredentials env user key cs d1 = (Inr (), d')"
    using Cons.prems(1) dat s r by (simp add: importCredentials_Cons)
  show ?case
  proof (cases "cs = []")
    case True
    then have "d' = d1" using rest by simp
    then show ?thesis
      using storeCredential_seq [OF assms(1), of ?c user d "()" d1] s r by simp
  next
    case False
    then show ?thesis using Cons.IH [OF rest] by simp
  qed
qed

lemma string_of_nat_nonempty: "string_of_nat n \<noteq> []"
  by (subst string_of_nat.simps) simp

lemma string_of_nat_long: "10 \<le> n \<Longrightarrow> 2 \<le> length (string_of_nat n)"
proof -
  assume "10 \<le> n"
  then have "string_of_nat n = string_of_nat (n div 10) @ [digit (n mod 10)]"
    by (subst string_of_nat.simps) simp
  moreover have "1 \<le> length (string_of_nat (n div 10))"
    using string_of_nat_nonempty [of "n div 10"] by (cases "string_of_nat (n div 10)") auto
  ultimately show ?thesis by simp
qed

lemma digit_zero:
  assumes "n < 10" and "digit n = CHR ''0''"
  shows "n = 0"
proof -
  have d: "distinct ''0123456789''" by simp
  have "''0123456789'' ! n = ''0123456789'' ! 0"
    using assms(2) by (simp add: digit_def)
  then show ?thesis using nth_eq_iff_index_eq [OF d, of n 0] assms(1) by simp
qed

lemma reportSuccess_zero:
  assumes "reportSuccess n = reportSuccess 0"
  shows "n = 0"
proof (cases "n < 10")
  case True
  then have s: "string_of_nat n = [digit n]" by (subst string_of_nat.simps) simp
  have z: "string_of_nat 0 = ''0''" by (subst string_of_nat.simps) (simp add: digit_def)
  have "digit n = CHR ''0''"
    using assms s z by (simp add: reportSuccess_def split: if_splits)
  then show ?thesis using True digit_zero by blast
next
  case False
  then have l: "2 \<le> length (string_of_nat n)" using string_of_nat_long by simp
  have z: "string_of_nat 0 = ''0''" by (subst string_of_nat.simps) (simp add: digit_def)
  have "n \<noteq> 1" using False by simp
  then have "string_of_nat n @ '' credentials.'' = ''0 credentials.''"
    using assms z by (simp add: reportSuccess_def)
  then have "length (string_of_nat n @ '' credentials.'') = length ''0 credentials.''"
    by simp
  then show ?thesis using l by simp
qed

lemma readable_length:
  "readable env files = (cs, None) \<Longrightarrow> length cs = length files"
  by (induction files arbitrary: cs) (auto split: sum.splits option.splits prod.splits)

lemma run_ok_batch:
  assumes "run env fl d = (Inr (), [reportSuccess n], d')" and "0 < n"
  shows "\<exists>u cs. cs \<noteq> [] \<and> importCredentials env u (encryptionKey env) cs d = (Inr (), d')"
proof -
  have notsoft: "[Info ''An input file or directory with --input must be provided''] \<noteq> [reportSuccess n]"
    "[Info ''The argument to --input must be a directory''] \<noteq> [reportSuccess n]"
    by (simp_all add: reportSuccess_def)
  obtain p where p: "flag_input fl = Some p" "p \<noteq> []"
    using assms(1) notsoft by (cases "flag_input fl") (auto simp: run_def split: if_splits)
  have chk: "\<not> (flag_separate fl \<and> existsSync env p \<and> \<not> isDirectory env p)"
    using assms(1) notsoft p by (auto simp: run_def split: if_splits)
  obtain u where u: "resolveUser env fl d = Inr u"
    using assms(1) p chk by (cases "resolveUser env fl d") (auto simp: run_def)
  show ?thesis
  proof (cases "flag_separate fl")
    case True
    let ?files = "glob env (if platform env = ''win32'' then replaceBackslashes p else p)"
    have rs: "runSeparate env p u d = (Inr (), [reportSuccess n], d')"
      using assms(1) p chk u True by (auto simp: run_def)
    then have imp: "importFiles env u (encryptionKey env) ?files d = (Inr (), d')"
      and rep: "reportSuccess (length ?files) = reportSuccess n"
      by (auto simp: runSeparate_def Let_def transaction_def split: prod.splits sum.splits)
    then obtain cs where cs: "readable env ?files = (cs, None)"
      and ic: "importCredentials env u (encryptionKey env) cs d = (Inr (), d')"
      by (auto simp: importFiles_ok)
    have "length ?files \<noteq> 0" using rep reportSuccess_zero assms(2) by force
    then have "cs \<noteq> []" using readable_length [OF cs] by auto
    then show ?thesis using ic by blast
  next
    case False
    have rs: "runSingle env p u d = (Inr (), [reportSuccess n], d')"
      using assms(1) p chk u False by (auto simp: run_def)
    then obtain content v where "readFileSync env p = Inr content" "jsonParse env content = Some v"
      and arr: "isArray v"
      and rest: "(case transaction d (importCredentials env u (encryptionKey env)
                    (case v of JArr cs \<Rightarrow> cs | _ \<Rightarrow> [])) of
                   (Inl e, d') \<Rightarrow> (Inl e, [], d')
                 | (Inr x, d') \<Rightarrow> (Inr (), [reportSuccess (case js_length v of Inr k \<Rightarrow> k | Inl e \<Rightarrow> 0)], d'))
                = (Inr (), [reportSuccess n], d')"
      by (auto simp: runSingle_def split: sum.splits option.splits if_splits)
    obtain cs where v: "v = JArr cs" using arr by (cases v) auto
    have ic: "importCredentials env u (encryptionKey env) cs d = (Inr (), d')"
      and rep: "reportSuccess (length cs) = reportSuccess n"
      using rest v by (auto simp: transaction_def split: prod.splits sum.splits)
    have "length cs \<noteq> 0" using rep reportSuccess_zero assms(2) by force
    then show ?thesis using ic by auto
  qed
qed

text \<open>On Postgres, an import of an empty array into storage whose sequence lags behind
  the greatest identifier: the run succeeds and the sequence is as it was, behind the
  maximum.\<close>

theorem empty_batch_sequence_counterexample:
  "database_type exampleEnv = ''postgresdb'' \<and>
   run exampleEnv (singleFile ''/empty.json'') laggingDb =
     (Inr (), [Info ''Successfully imported 0 credentials.''], laggingDb) \<and>
   credentials_entity_id_seq laggingDb = Some 1 \<and>
   max_id (credentialIds (credentials_entity laggingDb)) = Some 5"
  by (simp add: command_defs example_defs laggingDb_def importCredentials_Cons)

text \<open>
  Claim C9, as the code has it. On Postgres the sequence is set to the current maximum
  credential identifier inside \<open>storeCredential\<close>, after the two upserts of each
  record, not once after the loop. So after every successful run that imported at
  least one record the sequence holds an identifier of the credentials table that no
  other identifier exceeds, and later inserts do not collide; a run over an empty batch
  leaves the sequence untouched.
\<close>

theorem sequence_repaired_with_each_record:
  assumes "database_type env = ''postgresdb''"
    and "run env fl d = (Inr (), [reportSuccess n], d')" and "0 < n"
  shows "credentials_entity_id_seq d' = max_id (credentialIds (credentials_entity d')) \<and>
         (\<exists>m. credentials_entity_id_seq d' = Some m \<and>
              m \<in> set (credentialIds (credentials_entity d')) \<and>
              (\<forall>i\<in>set (credentialIds (credentials_entity d')). i \<le> m))"
proof -
  obtain u cs where "cs \<noteq> []"
    and "importCredentials env u (encryptionKey env) cs d = (Inr (), d')"
    using run_ok_batch [OF assms(2,3)] by blast
  then have ne: "credentials_entity d' \<noteq> []"
    and s: "credentials_entity_id_seq d' = Some (Max (set (credentialIds (credentials_entity d'))))"
    using importCredentials_seq [OF assms(1)] by blast+
  have ne': "credentialIds (credentials_entity d') \<noteq> []"
    using ne by (simp add: credentialIds_def)
  have "Max (set (credentialIds (credentials_entity d'))) \<in> set (credentialIds (credentials_entity d'))"
    using ne' by (intro Max_in) simp_all
  moreover have "\<forall>i\<in>set (credentialIds (credentials_entity d')).
                   i \<le> Max (set (credentialIds (credentials_entity d')))"
    by simp
  ultimately show ?thesis using s max_id_Max [OF ne'] by simp
qed

text \<open>The two example credentials imported into the lagging installation.\<close>

theorem sequence_repaired_with_each_record_witness:
  "database_type exampleEnv = ''postgresdb'' \<and>
   run exampleEnv (singleFile ''/two.json'') laggingDb =
     (Inr (), [Info ''Successfully imported 2 credentials.''], laggingTwoStored) \<and>
   credentials_entity_id_seq laggingTwoStored = Some 5 \<and>
   credentials_entity_id_seq laggingTwoStored =
     max_id (credentialIds (credentials_entity laggingTwoStored)) \<and>
   (\<exists>m. credentials_entity_id_seq laggingTwoStored = Some m \<and>
        m \<in> set (credentialIds (credentials_entity laggingTwoStored)) \<and>
        (\<forall>i\<in>set (credentialIds (credentials_entity laggingTwoStored)). i \<le> m))"
proof -
  have p: "database_type exampleEnv = ''postgresdb''" by (simp add: exampleEnv_def)
  have n: "reportSuccess 2 = Info ''Successfully imported 2 credentials.''"
    by (simp add: reportSuccess_def string_of_nat.simps digit_def)
  have z: "(0::nat) < 2" by simp
  have s: "credentials_entity_id_seq laggingTwoStored = Some 5"
    by (simp add: laggingTwoStored_def)
  from sequence_repaired_with_each_record [OF p two_into_lagging [folded n] z]
       p two_into_lagging s
  show ?thesis by blast
qed

section \<open>Running the same import twice\<close>

lemma upsert_settled_fix:
  assumes "settled link rows"
  shows "upsertSharedCredentials link rows = rows"
proof -
  have "map (\<lambda>r. if linkKey r = linkKey link then link else r) rows = rows"
    by (rule map_idI) (use assms in \<open>auto simp: settled_def\<close>)
  moreover have "linkKey link \<in> set (map linkKey rows)"
    using assms by (simp add: settled_def)
  ultimately show ?thesis by (simp only: upsertSharedCredentials_def if_True)
qed

lemma upsert_settles: "settled link (upsertSharedCredentials link rows)"
  by (auto simp: settled_def upsertSharedCredentials_def image_iff)

lemma ownerLink_key_eq:
  "linkKey (ownerLink env user i) = linkKey (ownerLink env user j) \<longleftrightarrow> i = j"
  by (simp add: ownerLink_def linkKey_def)

lemma upsert_keeps_settled:
  assumes "settled (ownerLink env user i) rows"
  shows "settled (ownerLink env user i) (upsertSharedCredentials (ownerLink env user j) rows)"
proof (cases "i = j")
  case True
  then show ?thesis using upsert_settles by simp
next
  case False
  then have k: "linkKey (ownerLink env user j) \<noteq> linkKey (ownerLink env user i)"
    by (simp add: ownerLink_key_eq)
  show ?thesis
    using assms k
    by (auto simp: settled_def upsertSharedCredentials_def image_iff split: if_splits)
qed

lemma fold_keeps_settled:
  "settled (ownerLink env user i) rows \<Longrightarrow>
   settled (ownerLink env user i)
     (fold (\<lambda>j. upsertSharedCredentials (ownerLink env user j)) ids rows)"
  by (induction ids arbitrary: rows) (simp_all add: upsert_keeps_settled)

lemma fold_settles:
  "i \<in> set ids \<Longrightarrow>
   settled (ownerLink env user i)
     (fold (\<lambda>j. upsertSharedCredentials (ownerLink env user j)) ids rows)"
proof (induction ids arbitrary: rows)
  case Nil
  then show ?case by simp
next
  case (Cons j ids)
  show ?case
  proof (cases "i = j")
    case True
    then show ?thesis using fold_keeps_settled [OF upsert_settles] by simp
  next
    case False
    then show ?thesis using Cons by simp
  qed
qed

lemma fold_settled_fix:
  "\<forall>i\<in>set ids. settled (ownerLink env user i) rows \<Longrightarrow>
   fold (\<lambda>j. upsertSharedCredentials (ownerLink env user j)) ids rows = rows"
  by (induction ids) (simp_all add: upsert_settled_fix)

lemma fold_upsert_idem:
  "fold (\<lambda>j. upsertSharedCredentials (ownerLink env user j)) ids
     (fold (\<lambda>j. upsertSharedCredentials (ownerLink env user j)) ids rows) =
   fold (\<lambda>j. upsertSharedCredentials (ownerLink env user j)) ids rows"
  by (rule fold_settled_fix) (simp add: fold_settles)

lemma upsert_keys_distinct:
  assumes "distinct (map linkKey rows)"
  shows "distinct (map linkKey (upsertSharedCredentials link rows))"
proof (cases "linkKey link \<in> set (map linkKey rows)")
  case True
  have "map linkKey (map (\<lambda>r. if linkKey r = linkKey link then link else r) rows) =
        map linkKey rows"
    by (induction rows) auto
  then have "map linkKey (upsertSharedCredentials link rows) = map linkKey rows"
    using True by (simp only: upsertSharedCredentials_def if_True)
  then show ?thesis using assms by simp
next
  case False
  then show ?thesis using assms by (simp add: upsertSharedCredentials_def)
qed

lemma fold_keys_distinct:
  "distinct (map linkKey rows) \<Longrightarrow>
   distinct (map linkKey (fold (\<lambda>j. upsertSharedCredentials (ownerLink env user j)) ids rows))"
  by (induction ids arbitrary: rows) (simp_all add: upsert_keys_distinct)

lemma importCredentials_links:
  "importCredentials env user key cs d = (Inr (), d') \<Longrightarrow>
   shared_credentials d' =
     fold (\<lambda>j. upsertSharedCredentials (ownerLink env user j)) (givenIds env cs)
       (shared_credentials d)"
proof (induction cs arbitrary: d)
  case Nil
  then show ?case by simp
next
  case (Cons c cs)
  from Cons.prems obtain dat where dat: "js_data c = Inr dat"
    by (cases "js_data c") (simp_all add: importCredentials_Cons)
  let ?c = "prepared env key c dat"
  obtain r d1 where s: "storeCredential env ?c user d = (r, d1)"
    by (cases "storeCredential env ?c user d")
  have r: "r = Inr ()" using Cons.prems dat s
    by (cases r) (simp_all add: importCredentials_Cons)
  have rest: "importCredentials env user key cs d1 = (Inr (), d')"
    using Cons.prems dat s r by (simp add: importCredentials_Cons)
  obtain i where i: "credentialId env ?c = Given i" and
    links: "shared_credentials d1 =
       upsertSharedCredentials (ownerLink env user i) (shared_credentials d)"
    using storeCredential_ok [of env ?c user d "()" d1] s r by blast
  have ci: "credentialId env c = Given i" using i credentialId_prepared [OF dat] by simp
  show ?case using Cons.IH [OF rest] links ci by simp
qed

text \<open>Whether the loop succeeds depends on the storage only through the credentials
  table.\<close>

lemma importCredentials_ok_rows:
  assumes "credentials_entity d = credentials_entity d0"
  shows "fst (importCredentials env user key cs d) = Inr () \<longleftrightarrow>
         fst (importCredentials env user key cs d0) = Inr ()"
  using assms
proof (induction cs arbitrary: d d0)
  case Nil
  show ?case by simp
next
  case (Cons c cs)
  show ?case
  proof (cases "js_data c")
    case (Inl e)
    then show ?thesis by (simp add: importCredentials_Cons)
  next
    case (Inr dat)
    let ?c = "prepared env key c dat"
    obtain r d1 where s: "storeCredential env ?c user d = (r, d1)"
      by (cases "storeCredential env ?c user d")
    obtain r0 d2 where s0: "storeCredential env ?c user d0 = (r0, d2)"
      by (cases "storeCredential env ?c user d0")
    have same: "r = Inr () \<longleftrightarrow> r0 = Inr ()"
      using storeCredential_fst_rows [OF Cons.prems, of env ?c user] s s0 by simp
    show ?thesis
    proof (cases "r = Inr ()")
      case True
      then have r0: "r0 = Inr ()" using same by simp
      obtain n where "credentials_entity d1 = upsertRow n ?c (credentials_entity d)"
        and g: "credentialId env ?c = Given n"
        using storeCredential_ok [of env ?c user d "()" d1] s True by blast
      moreover obtain m where "credentials_entity d2 = upsertRow m ?c (credentials_entity d0)"
        and "credentialId env ?c = Given m"
        using storeCredential_ok [of env ?c user d0 "()" d2] s0 r0 by blast
      ultimately have "credentials_entity d1 = credentials_entity d2"
        using Cons.prems by simp
      then show ?thesis using Cons.IH [of d1 d2] Inr s s0 True r0
        by (simp add: importCredentials_Cons)
    next
      case False
      then obtain e where e: "r = Inl e" by (cases r) auto
      have "r0 \<noteq> Inr ()" using same False by simp
      then obtain e0 where e0: "r0 = Inl e0" by (cases r0) auto
      show ?thesis using Inr s s0 e e0 by (simp add: importCredentials_Cons)
    qed
  qed
qed

text \<open>What a successful loop has established: every record was storable under an
  identifier that is now in the table, and no identifier has left the table.\<close>

lemma importCredentials_stored:
  assumes "importCredentials env user key cs d = (Inr (), d')"
  shows "set (credentialIds (credentials_entity d)) \<subseteq> set (credentialIds (credentials_entity d')) \<and>
         (\<forall>c\<in>set cs. \<exists>n. storableAs env key c n \<and>
                          n \<in> set (credentialIds (credentials_entity d')))"
  using assms
proof (induction cs arbitrary: d)
  case Nil
  then show ?case by simp
next
  case (Cons c cs)
  from Cons.prems obtain dat where dat: "js_data c = Inr dat"
    by (cases "js_data c") (simp_all add: importCredentials_Cons)
  let ?c = "prepared env key c dat"
  obtain r d1 where s: "storeCredential env ?c user d = (r, d1)"
    by (cases "storeCredential env ?c user d")
  have r: "r = Inr ()" using Cons.prems dat s
    by (cases r) (simp_all add: importCredentials_Cons)
  have rest: "importCredentials env user key cs d1 = (Inr (), d')"
    using Cons.prems dat s r by (simp add: importCredentials_Cons)
  obtain n where n: "credentialId env ?c = Given n" and ok: "rowOk env ?c"
    and rows: "credentials_entity d1 = upsertRow n ?c (credentials_entity d)"
    using storeCredential_ok [of env ?c user d "()" d1] s r by blast
  have ids1: "set (credentialIds (credentials_entity d1)) =
              insert n (set (credentialIds (credentials_entity d)))"
    using rows by (simp add: set_ids_upsertRow)
  have st: "storableAs env key c n" using dat n ok by (simp add: storableAs_def)
  from Cons.IH [OF rest] ids1 st show ?case by auto
qed

text \<open>Records that are storable under identifiers already in the table are stored
  again, when the greatest identifier of the table is within the bounds of the
  sequence.\<close>

lemma importCredentials_again:
  assumes "\<forall>c\<in>set cs. \<exists>n. storableAs env key c n \<and> n \<in> set (credentialIds (credentials_entity d))"
    and "database_type env = ''postgresdb'' \<longrightarrow> cs \<noteq> [] \<longrightarrow>
           setvalOk env (Max (set (credentialIds (credentials_entity d))))"
  shows "fst (importCredentials env user key cs d) = Inr ()"
  using assms
proof (induction cs arbitrary: d)
  case Nil
  show ?case by simp
next
  case (Cons c cs)
  obtain n where st: "storableAs env key c n"
    and n: "n \<in> set (credentialIds (credentials_entity d))"
    using Cons.prems(1) by auto
  obtain dat where dat: "js_data c = Inr dat" and ok: "rowOk env (prepared env key c dat)"
    and g: "credentialId env (prepared env key c dat) = Given n"
    using st by (auto simp: storableAs_def split: sum.splits)
  let ?c = "prepared env key c dat"
  have same: "insert n (set (credentialIds (credentials_entity d))) =
              set (credentialIds (credentials_entity d))"
    using n by auto
  have b: "database_type env = ''postgresdb'' \<longrightarrow>
             setvalOk env (Max (set (credentialIds (credentials_entity d))))"
    using Cons.prems(2) by simp
  have "fst (storeCredential env ?c user d) = Inr ()"
    using ok g b same by (simp add: storeCredential_ok_iff)
  then obtain d1 where s: "storeCredential env ?c user d = (Inr (), d1)"
    by (cases "storeCredential env ?c user d") auto
  obtain m where "credentialId env ?c = Given m"
    and rows: "credentials_entity d1 = upsertRow m ?c (credentials_entity d)"
    using storeCredential_ok [OF s] by blast
  then have "m = n" using g by simp
  then have ids1: "set (credentialIds (credentials_entity d1)) =
                   set (credentialIds (credentials_entity d))"
    using rows same by (simp add: set_ids_upsertRow)
  have "fst (importCredentials env user key cs d1) = Inr ()"
    using Cons.IH [of d1] Cons.prems(1) b ids1 by simp
  then show ?case using dat s by (simp add: importCredentials_Cons)
qed

lemma importCredentials_twice:
  assumes "importCredentials env user key cs d = (Inr (), d')"
  shows "fst (importCredentials env user key cs d') = Inr ()"
proof (rule importCredentials_again)
  show "\<forall>c\<in>set cs. \<exists>n. storableAs env key c n \<and> n \<in> set (credentialIds (credentials_entity d'))"
    using importCredentials_stored [OF assms] by blast
next
  show "database_type env = ''postgresdb'' \<longrightarrow> cs \<noteq> [] \<longrightarrow>
           setvalOk env (Max (set (credentialIds (credentials_entity d'))))"
    using importCredentials_seq [OF _ assms] by blast
qed

text \<open>A transaction callback whose success depends on the storage through the
  credentials table only, which succeeds again on the storage it has left, and whose
  links, when it succeeds, are the upserts of a fixed list of identifiers.\<close>

lemma transaction_twice_links:
  assumes res: "\<And>d d0. credentials_entity d = credentials_entity d0 \<Longrightarrow>
                  fst (cb d) = Inr () \<longleftrightarrow> fst (cb d0) = Inr ()"
    and again: "\<And>d d'. cb d = (Inr (), d') \<Longrightarrow> fst (cb d') = Inr ()"
    and links: "\<And>d d'. cb d = (Inr (), d') \<Longrightarrow>
        shared_credentials d' =
          fold (\<lambda>j. upsertSharedCredentials (ownerLink env user j)) ids (shared_credentials d)"
  shows "shared_credentials (snd (transaction (snd (transaction d cb)) cb)) =
           shared_credentials (snd (transaction d cb)) \<and>
         (distinct (map linkKey (shared_credentials d)) \<longrightarrow>
          distinct (map linkKey (shared_credentials (snd (transaction d cb)))))"
proof -
  obtain r d1 where c1: "cb d = (r, d1)" by (cases "cb d")
  show ?thesis
  proof (cases r)
    case (Inl e)
    let ?d1 = "d\<lparr>credentials_entity_id_seq := credentials_entity_id_seq d1\<rparr>"
    have t1: "transaction d cb = (Inl e, ?d1)" using c1 Inl by (simp add: transaction_def)
    obtain r2 d2 where c2: "cb ?d1 = (r2, d2)" by (cases "cb ?d1")
    have "r2 \<noteq> Inr ()" using res [of ?d1 d] c1 c2 Inl by simp
    then obtain e2 where "r2 = Inl e2" by (cases r2) auto
    then show ?thesis using t1 c2 by (simp add: transaction_def)
  next
    case (Inr u)
    have t1: "transaction d cb = (Inr (), d1)" using c1 Inr by (simp add: transaction_def)
    have l1: "shared_credentials d1 =
          fold (\<lambda>j. upsertSharedCredentials (ownerLink env user j)) ids (shared_credentials d)"
      using links c1 Inr by simp
    obtain r2 d2 where c2: "cb d1 = (r2, d2)" by (cases "cb d1")
    have r2: "r2 = Inr ()" using again [of d d1] c1 c2 Inr by simp
    have l2: "shared_credentials d2 = shared_credentials d1"
      using links [of d1 d2] c2 r2 l1 fold_upsert_idem [of env user ids "shared_credentials d"]
      by simp
    show ?thesis using t1 c2 r2 l1 l2 fold_keys_distinct [of "shared_credentials d" env user ids]
      by (simp add: transaction_def)
  qed
qed

lemma importFiles_ok_rows:
  assumes "credentials_entity d = credentials_entity d0"
  shows "fst (importFiles env user key files d) = Inr () \<longleftrightarrow>
         fst (importFiles env user key files d0) = Inr ()"
proof -
  obtain cs e where rd: "readable env files = (cs, e)" by (cases "readable env files")
  obtain r d1 where a: "importCredentials env user key cs d = (r, d1)"
    by (cases "importCredentials env user key cs d")
  obtain r0 d2 where b: "importCredentials env user key cs d0 = (r0, d2)"
    by (cases "importCredentials env user key cs d0")
  have "r = Inr () \<longleftrightarrow> r0 = Inr ()"
    using importCredentials_ok_rows [OF assms, of env user key cs] a b by simp
  then show ?thesis using rd a b
    by (cases r; cases r0; cases e) (simp_all add: importFiles_readable)
qed

lemma importFiles_twice:
  assumes "importFiles env user key files d = (Inr (), d')"
  shows "fst (importFiles env user key files d') = Inr ()"
proof -
  obtain cs where rd: "readable env files = (cs, None)"
    and i: "importCredentials env user key cs d = (Inr (), d')"
    using assms by (auto simp: importFiles_ok)
  obtain d2 where "importCredentials env user key cs d' = (Inr (), d2)"
    using importCredentials_twice [OF i]
    by (cases "importCredentials env user key cs d'") auto
  then show ?thesis using rd by (simp add: importFiles_readable)
qed

lemma importFiles_links:
  assumes "importFiles env user key files d = (Inr (), d')"
  shows "shared_credentials d' =
     fold (\<lambda>j. upsertSharedCredentials (ownerLink env user j))
       (givenIds env (fst (readable env files))) (shared_credentials d)"
proof -
  obtain cs where "readable env files = (cs, None)"
    and "importCredentials env user key cs d = (Inr (), d')"
    using assms importFiles_ok [of env user key files d d'] by auto
  then show ?thesis using importCredentials_links by simp
qed

lemma transaction_users:
  assumes "\<And>x. users (snd (cb x)) = users x" and "transaction d cb = (r, d')"
  shows "users d' = users d"
  using assms(1) [of d] assms(2)
  by (auto simp: transaction_def split: prod.splits sum.splits)

lemma importFiles_users:
  "users (snd (importFiles env user key files d)) = users d"
  using importCredentials_users [of env user key "fst (readable env files)" d]
  by (auto simp: importFiles_readable split: prod.splits sum.splits option.splits)

lemma tx_importCredentials_users:
  "transaction d (importCredentials env user key cs) = (r, d') \<Longrightarrow> users d' = users d"
  by (rule transaction_users [of "importCredentials env user key cs"])
     (simp_all add: importCredentials_users)

lemma tx_importFiles_users:
  "transaction d (importFiles env user key files) = (r, d') \<Longrightarrow> users d' = users d"
  by (rule transaction_users [of "importFiles env user key files"])
     (simp_all add: importFiles_users)

lemma run_users: "users (snd (snd (run env fl d))) = users d"
  by (auto simp: run_def runSeparate_def runSingle_def Let_def
           split: sum.splits prod.splits option.splits
           dest: tx_importCredentials_users tx_importFiles_users)

lemma resolveUser_users:
  "users d1 = users d \<Longrightarrow> resolveUser env fl d1 = resolveUser env fl d"
  by (simp add: resolveUser_def getOwner_def getAssignee_def)

lemma runSeparate_db:
  "snd (snd (runSeparate env p user d)) =
     snd (transaction d (importFiles env user (encryptionKey env)
            (glob env (if platform env = ''win32'' then replaceBackslashes p else p))))"
  by (simp add: runSeparate_def Let_def split: prod.splits sum.splits)

lemma runSeparate_twice:
  "shared_credentials (snd (snd (runSeparate env p user (snd (snd (runSeparate env p user d)))))) =
     shared_credentials (snd (snd (runSeparate env p user d))) \<and>
   (distinct (map linkKey (shared_credentials d)) \<longrightarrow>
    distinct (map linkKey (shared_credentials (snd (snd (runSeparate env p user d))))))"
  unfolding runSeparate_db
  by (rule transaction_twice_links [where ids = "givenIds env (fst (readable env
            (glob env (if platform env = ''win32'' then replaceBackslashes p else p))))"])
     (erule importFiles_ok_rows, erule importFiles_twice, erule importFiles_links)

lemma runSingle_db:
  "snd (snd (runSingle env p user d)) =
     (case readFileSync env p of
        Inl e \<Rightarrow> d
      | Inr content \<Rightarrow>
          (case jsonParse env content of
             Some (JArr cs) \<Rightarrow> snd (transaction d (importCredentials env user (encryptionKey env) cs))
           | _ \<Rightarrow> d))"
  by (simp add: runSingle_def split: prod.splits sum.splits option.splits json.splits)

lemma runSingle_twice:
  "shared_credentials (snd (snd (runSingle env p user (snd (snd (runSingle env p user d)))))) =
     shared_credentials (snd (snd (runSingle env p user d))) \<and>
   (distinct (map linkKey (shared_credentials d)) \<longrightarrow>
    distinct (map linkKey (shared_credentials (snd (snd (runSingle env p user d))))))"
proof (cases "readFileSync env p")
  case (Inl e)
  then show ?thesis by (simp add: runSingle_db)
next
  case (Inr content)
  show ?thesis
  proof (cases "\<exists>cs. jsonParse env content = Some (JArr cs)")
    case True
    then obtain cs where cs: "jsonParse env content = Some (JArr cs)" by blast
    have "shared_credentials (snd (transaction
              (snd (transaction d (importCredentials env user (encryptionKey env) cs)))
              (importCredentials env user (encryptionKey env) cs))) =
          shared_credentials (snd (transaction d (importCredentials env user (encryptionKey env) cs))) \<and>
          (distinct (map linkKey (shared_credentials d)) \<longrightarrow>
           distinct (map linkKey (shared_credentials
              (snd (transaction d (importCredentials env user (encryptionKey env) cs))))))"
      by (rule transaction_twice_links [where ids = "givenIds env cs"])
         (erule importCredentials_ok_rows, erule importCredentials_twice,
          erule importCredentials_links)
    then show ?thesis using Inr cs by (simp add: runSingle_db)
  next
    case False
    then have "snd (snd (runSingle env p user x)) = x" for x
      using Inr by (auto simp: runSingle_db split: option.splits json.splits)
    then show ?thesis by simp
  qed
qed

text \<open>
  Claim C4. Running the same import a second time, against the storage the first run
  left, leaves the ownership-link table exactly as the first run left it: the link is
  upserted on the pair of credential identifier and user identifier, so the second run
  rewrites the links of the first instead of adding to them. A table without two links
  of one key before the import has none after it.
\<close>

theorem second_run_same_links:
  "shared_credentials (snd (snd (run env fl (snd (snd (run env fl d)))))) =
     shared_credentials (snd (snd (run env fl d))) \<and>
   (distinct (map linkKey (shared_credentials d)) \<longrightarrow>
    distinct (map linkKey (shared_credentials (snd (snd (run env fl d))))))"
proof -
  let ?d1 = "snd (snd (run env fl d))"
  let ?inp = "case flag_input fl of Some p \<Rightarrow> p | None \<Rightarrow> []"
  have ru: "resolveUser env fl ?d1 = resolveUser env fl d"
    using resolveUser_users [OF run_users] .
  show ?thesis
  proof (cases "\<not> truthy (flag_input fl) \<or>
                (flag_separate fl \<and> existsSync env ?inp \<and> \<not> isDirectory env ?inp)")
    case True
    then have "snd (snd (run env fl x)) = x" for x by (auto simp: run_def Let_def)
    then show ?thesis by simp
  next
    case False
    show ?thesis
    proof (cases "resolveUser env fl d")
      case (Inl e)
      then have "?d1 = d" using False by (auto simp: run_def Let_def)
      then show ?thesis by simp
    next
      case (Inr user)
      show ?thesis
      proof (cases "flag_separate fl")
        case True
        have "run env fl x = runSeparate env ?inp user x" if "resolveUser env fl x = Inr user" for x
          using that False True by (auto simp: run_def Let_def)
        then show ?thesis using Inr ru runSeparate_twice [of env ?inp user d] by simp
      next
        case single: False
        have "run env fl x = runSingle env ?inp user x" if "resolveUser env fl x = Inr user" for x
          using that False single by (auto simp: run_def Let_def)
        then show ?thesis using Inr ru runSingle_twice [of env ?inp user d] by simp
      qed
    qed
  qed
qed

text \<open>The file \<open>/two.json\<close> imported twice into the example installation.\<close>

text \<open>The file \<open>/two.json\<close> imported twice into the example installation.\<close>

theorem second_run_same_links_witness:
  "run exampleEnv (singleFile ''/two.json'') exampleDb =
     (Inr (), [Info ''Successfully imported 2 credentials.''], twoStored) \<and>
   shared_credentials (snd (snd (run exampleEnv (singleFile ''/two.json'') twoStored))) =
     shared_credentials twoStored \<and>
   distinct (map linkKey (shared_credentials exampleDb)) \<and>
   distinct (map linkKey (shared_credentials twoStored))"
proof -
  have e: "distinct (map linkKey (shared_credentials exampleDb))"
    by (simp add: exampleDb_def)
  from second_run_same_links [of exampleEnv "singleFile ''/two.json''" exampleDb] two_single e
  show ?thesis by simp
qed

end
